theory Spec2Isabelle
  imports Main "HOL-Library.Word" "HOL-Library.Sublist"
begin

section \<open>The libFuzzer driver (FuzzerDriver.cpp)\<close>

text \<open>
  Conventions of the embedding.
  \<^item> A C string (\<open>const char *\<close>) and a \<open>std::string\<close> are the list of their characters
    before the terminating NUL; reading the position just behind the last character gives
    NUL (\<open>c_at\<close>).
  \<^item> \<open>long\<close> and \<open>unsigned long\<close> are 64-bit words, \<open>int\<close> and \<open>unsigned\<close> 32-bit words
    (LP64); arithmetic wraps, \<open>sint\<close> reads a signed value.
  \<^item> A byte buffer (\<open>Unit\<close>, \<open>std::vector<uint8_t>\<close>) is a list of 8-bit words.
  \<^item> What the driver prints is kept as a list of output events, the newest last.
\<close>

type_synonym long = "64 word"
type_synonym cint = "32 word"
type_synonym unsigned = "32 word"
type_synonym Unit = "8 word list"

subsection \<open>C strings\<close>

definition c_at :: "string \<Rightarrow> nat \<Rightarrow> char" where
  "c_at s i = (if i < length s then s ! i else CHR 0x00)"

text \<open>\<open>strstr(hay, needle)\<close>: the offset of the first occurrence, \<open>None\<close> for a null result.\<close>

fun strstr :: "string \<Rightarrow> string \<Rightarrow> nat option" where
  "strstr [] needle = (if needle = [] then Some 0 else None)"
| "strstr (h # hay) needle =
     (if take (length needle) (h # hay) = needle then Some 0
      else map_option Suc (strstr hay needle))"

subsection \<open>FlagValue\<close>

text \<open>
  \<^verbatim>\<open>size_t Len = strlen(Name);
  if (Param[0] == '-' && strstr(Param + 1, Name) == Param + 1 && Param[Len + 1] == '=')
    return &Param[Len + 2];
  return nullptr;\<close>
  The returned pointer is the suffix of \<open>Param\<close> from position \<open>Len + 2\<close>.
\<close>

definition FlagValue :: "string \<Rightarrow> string \<Rightarrow> string option" where
  "FlagValue Param Name =
     (let Len = length Name in
      if c_at Param 0 = CHR ''-'' \<and> strstr (drop 1 Param) Name = Some 0 \<and>
         c_at Param (Len + 1) = CHR ''=''
      then Some (drop (Len + 2) Param)
      else None)"

subsection \<open>MyStol\<close>

text \<open>
  The loop \<^verbatim>\<open>for (size_t i = 0; Str[i]; i++)\<close> of \<open>MyStol\<close>, with \<open>Res\<close> and \<open>Sign\<close> as
  accumulators. The end of the list and a NUL character both end the loop; a character
  outside \<open>'0'..'9'\<close> returns \<open>Res\<close> at once. (Where \<open>char\<close> is signed, a byte above 0x7F is
  negative and below \<open>'0'\<close>; where it is unsigned it is above \<open>'9'\<close>: not a digit either way.)
\<close>

fun MyStol_loop :: "long \<Rightarrow> long \<Rightarrow> string \<Rightarrow> long" where
  "MyStol_loop Res Sign [] = Res * Sign"
| "MyStol_loop Res Sign (Ch # Str) =
     (if Ch = CHR 0x00 then Res * Sign
      else if (of_char Ch :: nat) < of_char CHR ''0'' \<or> (of_char Ch :: nat) > of_char CHR ''9''
      then Res
      else MyStol_loop (Res * 10 + of_nat (of_char Ch - of_char CHR ''0'')) Sign Str)"

definition MyStol :: "string \<Rightarrow> long" where
  "MyStol Str =
     (if c_at Str 0 = CHR ''-'' then MyStol_loop 0 (- 1) (drop 1 Str)
      else MyStol_loop 0 1 Str)"

text \<open>The decimal value of a string of digits, most significant digit first.\<close>

definition is_digit :: "char \<Rightarrow> bool" where
  "is_digit c = ((of_char CHR ''0'' :: nat) \<le> of_char c \<and> (of_char c :: nat) \<le> of_char CHR ''9'')"

definition digit_value :: "char \<Rightarrow> nat" where
  "digit_value c = of_char c - of_char CHR ''0''"

definition decimal_value :: "string \<Rightarrow> nat" where
  "decimal_value ds = foldl (\<lambda>a c. 10 * a + digit_value c) 0 ds"

subsection \<open>Output and process exit\<close>

text \<open>
  An argument of a \<open>Printf\<close> call, and the effects of the driver that the claims observe:
  what it prints, the files it writes and removes, the commands it runs.
\<close>

datatype arg = AStr string | AInt int | AUInt nat | APtr nat

datatype event =
    Printf string "arg list"
  | PrintASCII Unit string
  | WriteToFile Unit string
  | RemoveFile string
  | ExecuteCommand cint
  | WriteToOutputCorpus Unit

text \<open>How a driver function ends: \<open>exit(n)\<close> inside it, or \<open>return n\<close>.\<close>

datatype outcome = Exited cint | Returned cint

subsection \<open>The flag table and the flags\<close>

text \<open>
  \<open>FuzzerFlags.def\<close> is not part of the sources, so the table \<open>FlagDescriptions\<close> is a
  parameter. Each of its rows is built by one of four macros, which set at most one of the
  pointers \<open>IntFlag\<close>, \<open>UIntFlag\<close>, \<open>StrFlag\<close>, always to the field of \<open>Flags\<close> that has the
  row's own name: \<open>Kind\<close> says which pointer is set, and the field is \<open>Name\<close>.
  The struct \<open>Flags\<close> has one field for each row that is not deprecated: \<open>NumFlag\<close> holds the
  \<open>int\<close> and \<open>unsigned\<close> fields (32 bits each), \<open>StrFlagV\<close> the \<open>const char *\<close> fields
  (\<open>None\<close> is \<open>nullptr\<close>).
\<close>

datatype FlagKind = IntFlag | UIntFlag | StrFlag | DeprecatedFlag

record FlagDescription =
  Name :: string
  Description :: string
  Default :: cint
  Kind :: FlagKind

record FlagsT =
  NumFlag :: "string \<Rightarrow> cint"
  StrFlagV :: "string \<Rightarrow> string option"

record ExternalFunctions =
  LLVMFuzzerCustomMutator :: "nat option"

record ParseState =
  Flags :: FlagsT
  Inputs :: "string list"
  PrintedWarning :: bool
  Out :: "event list"

definition print :: "ParseState \<Rightarrow> event \<Rightarrow> ParseState" where
  "print st e = st\<lparr>Out := Out st @ [e]\<rparr>"

definition set_num :: "ParseState \<Rightarrow> string \<Rightarrow> cint \<Rightarrow> ParseState" where
  "set_num st n v = st\<lparr>Flags := (Flags st)\<lparr>NumFlag := (NumFlag (Flags st))(n := v)\<rparr>\<rparr>"

definition set_str :: "ParseState \<Rightarrow> string \<Rightarrow> string option \<Rightarrow> ParseState" where
  "set_str st n v = st\<lparr>Flags := (Flags st)\<lparr>StrFlagV := (StrFlagV (Flags st))(n := v)\<rparr>\<rparr>"

text \<open>\<open>Flags.verbosity\<close>, an \<open>int\<close>, read as a signed value.\<close>

definition verbosity :: "ParseState \<Rightarrow> int" where
  "verbosity st = sint (NumFlag (Flags st) ''verbosity'')"

subsection \<open>ParseOneFlag\<close>

text \<open>The loop of the \<open>--\<close> branch: one warning for every row whose name the token carries.\<close>

fun did_you_mean :: "FlagDescription list \<Rightarrow> string \<Rightarrow> event list" where
  "did_you_mean [] P = []"
| "did_you_mean (D # Ds) P =
     (if FlagValue P (Name D) \<noteq> None
      then [Printf ''WARNING: did you mean '%s' (single dash)?\<newline>'' [AStr P]] else [])
     @ did_you_mean Ds P"

text \<open>
  The loop over the rows: the first row whose name the token carries decides. \<open>std::stoul\<close>
  belongs to the standard library and is a parameter; \<open>None\<close> is its exception, which
  nothing catches, so the process ends. The casts to \<open>int\<close> and \<open>unsigned\<close> keep the low
  32 bits.
\<close>

fun ParseOneFlag_rows ::
  "(string \<Rightarrow> 64 word option) \<Rightarrow> string \<Rightarrow> FlagDescription list \<Rightarrow> ParseState \<Rightarrow> ParseState option"
where
  "ParseOneFlag_rows stoul Param [] st =
     Some (print st (Printf
       ''\<newline>\<newline>WARNING: unrecognized flag '%s'; use -help=1 to list all flags\<newline>\<newline>''
       [AStr Param]))"
| "ParseOneFlag_rows stoul Param (D # Ds) st =
     (case FlagValue Param (Name D) of
        None \<Rightarrow> ParseOneFlag_rows stoul Param Ds st
      | Some Str \<Rightarrow>
          (case Kind D of
             IntFlag \<Rightarrow>
               (let Val = MyStol Str;
                    st1 = set_num st (Name D) (ucast Val)
                in Some (if 2 \<le> verbosity st1
                         then print st1 (Printf ''Flag: %s %d\<newline>'' [AStr (Name D), AInt (sint Val)])
                         else st1))
           | UIntFlag \<Rightarrow>
               (case stoul Str of
                  None \<Rightarrow> None
                | Some Val \<Rightarrow>
                    (let st1 = set_num st (Name D) (ucast Val)
                     in Some (if 2 \<le> verbosity st1
                              then print st1 (Printf ''Flag: %s %u\<newline>'' [AStr (Name D), AUInt (unat Val)])
                              else st1)))
           | StrFlag \<Rightarrow>
               (let st1 = set_str st (Name D) (Some Str)
                in Some (if 2 \<le> verbosity st1
                         then print st1 (Printf ''Flag: %s %s\<newline>'' [AStr (Name D), AStr Str])
                         else st1))
           | DeprecatedFlag \<Rightarrow>
               Some (print st (Printf ''Flag: %s: deprecated, don't use\<newline>'' [AStr (Name D)]))))"

text \<open>\<open>ParseOneFlag\<close> returns whether the token was a flag; every flag token returns true.\<close>

definition ParseOneFlag ::
  "(string \<Rightarrow> 64 word option) \<Rightarrow> FlagDescription list \<Rightarrow> string \<Rightarrow> ParseState
   \<Rightarrow> (bool \<times> ParseState) option"
where
  "ParseOneFlag stoul FlagDescriptions Param st =
     (if c_at Param 0 \<noteq> CHR ''-'' then Some (False, st)
      else if c_at Param 1 = CHR ''-'' then
        (let st1 = (if \<not> PrintedWarning st
                    then print (st\<lparr>PrintedWarning := True\<rparr>)
                           (Printf ''INFO: libFuzzer ignores flags that start with '--'\<newline>'' [])
                    else st)
         in Some (True, st1\<lparr>Out := Out st1 @ did_you_mean FlagDescriptions (drop 1 Param)\<rparr>))
      else map_option (Pair True) (ParseOneFlag_rows stoul Param FlagDescriptions st))"

subsection \<open>ParseFlags\<close>

text \<open>The first loop: every field gets its default (a string field \<open>nullptr\<close>).\<close>

fun init_defaults :: "FlagDescription list \<Rightarrow> FlagsT \<Rightarrow> FlagsT" where
  "init_defaults [] F = F"
| "init_defaults (D # Ds) F =
     init_defaults Ds
       (case Kind D of
          IntFlag \<Rightarrow> F\<lparr>NumFlag := (NumFlag F)(Name D := Default D)\<rparr>
        | UIntFlag \<Rightarrow> F\<lparr>NumFlag := (NumFlag F)(Name D := Default D)\<rparr>
        | StrFlag \<Rightarrow> F\<lparr>StrFlagV := (StrFlagV F)(Name D := None)\<rparr>
        | DeprecatedFlag \<Rightarrow> F)"

text \<open>
  The loop over \<open>Args[1..]\<close>: a flag token is consumed, and ends the loop when
  \<open>Flags.ignore_remaining_args\<close> is set afterwards; any other token is appended to \<open>Inputs\<close>.
\<close>

fun ParseFlags_args ::
  "(string \<Rightarrow> 64 word option) \<Rightarrow> FlagDescription list \<Rightarrow> string list \<Rightarrow> ParseState
   \<Rightarrow> ParseState option"
where
  "ParseFlags_args stoul FlagDescriptions [] st = Some st"
| "ParseFlags_args stoul FlagDescriptions (A # As) st =
     (case ParseOneFlag stoul FlagDescriptions A st of
        None \<Rightarrow> None
      | Some (True, st1) \<Rightarrow>
          if NumFlag (Flags st1) ''ignore_remaining_args'' \<noteq> 0 then Some st1
          else ParseFlags_args stoul FlagDescriptions As st1
      | Some (False, st1) \<Rightarrow>
          ParseFlags_args stoul FlagDescriptions As (st1\<lparr>Inputs := Inputs st1 @ [A]\<rparr>))"

definition ParseFlags ::
  "(string \<Rightarrow> 64 word option) \<Rightarrow> FlagDescription list \<Rightarrow> string list \<Rightarrow> ExternalFunctions
   \<Rightarrow> ParseState \<Rightarrow> ParseState option"
where
  "ParseFlags stoul FlagDescriptions Args EF st =
     (let st1 = st\<lparr>Flags := init_defaults FlagDescriptions (Flags st)\<rparr>;
          st2 = (case LLVMFuzzerCustomMutator EF of
                   None \<Rightarrow> st1
                 | Some p \<Rightarrow>
                     print (set_num st1 ''len_control'' 0)
                       (Printf ''INFO: found LLVMFuzzerCustomMutator (%p). Disabling -len_control by default.\<newline>''
                          [APtr p]));
          st3 = st2\<lparr>Inputs := []\<rparr>
      in ParseFlags_args stoul FlagDescriptions (drop 1 Args) st3)"

text \<open>The state before \<open>ParseFlags\<close>: \<open>Flags\<close> is a global, zero-initialised.\<close>

definition initial_state :: ParseState where
  "initial_state =
     \<lparr>Flags = \<lparr>NumFlag = (\<lambda>_. 0), StrFlagV = (\<lambda>_. None)\<rparr>, Inputs = [],
      PrintedWarning = False, Out = []\<rparr>"

subsection \<open>The collaborators of the driver\<close>

text \<open>
  The file system, the merge primitive and the order on sized files live in other files of
  libFuzzer (\<open>FuzzerIO\<close>, \<open>FuzzerMerge\<close>, \<open>FuzzerUtil\<close>); the driver sees them through these
  functions. \<open>FileToVector Path MaxLen\<close> reads a file (\<open>MaxLen = 0\<close>: all of it),
  \<open>SortSizedFiles\<close> is \<open>std::sort\<close> with \<open>SizedFile::operator<\<close>, \<open>CrashResistantMerge\<close>
  returns the list \<open>NewFiles\<close> it fills. The fields \<open>File\<close> and \<open>Size\<close> of \<open>SizedFile\<close> carry a
  prefix here, \<open>Size\<close> being a variable of the driver as well.
\<close>

record SizedFile =
  SF_File :: string
  SF_Size :: nat

record Env =
  FileToVector :: "string \<Rightarrow> nat \<Rightarrow> Unit"
  FileToString :: "string \<Rightarrow> string"
  TempPath :: "string \<Rightarrow> string \<Rightarrow> string"
  GetSizedFilesFromDir :: "string \<Rightarrow> SizedFile list"
  SortSizedFiles :: "SizedFile list \<Rightarrow> SizedFile list"
  CrashResistantMerge ::
    "string list \<Rightarrow> SizedFile list \<Rightarrow> SizedFile list \<Rightarrow> string \<Rightarrow> bool \<Rightarrow> string list"

subsection \<open>CleanseCrashInput\<close>

text \<open>
  \<open>RunCmd U\<close> is the exit code of \<open>ExecuteCommand(Cmd)\<close> when the temporary file holds \<open>U\<close>:
  \<open>Cmd\<close> is the same command in every call (the arguments without \<open>-cleanse_crash\<close> and the
  input, plus the temporary path), so the file's contents are all that changes between runs.
  The state of the loops is the buffer \<open>U\<close>, the flag \<open>Changed\<close> and the events so far.
\<close>

definition ReplacementBytes :: "8 word list" where
  "ReplacementBytes = [0x20, 0xFF]"

text \<open>The loop \<^verbatim>\<open>for (auto NewByte : ReplacementBytes)\<close>, which a replacement that keeps the
  crash leaves by \<open>break\<close>.\<close>

fun cleanse_try ::
  "(Unit \<Rightarrow> cint) \<Rightarrow> string \<Rightarrow> string \<Rightarrow> nat \<Rightarrow> 8 word \<Rightarrow> 8 word list
   \<Rightarrow> Unit \<times> bool \<times> event list \<Rightarrow> Unit \<times> bool \<times> event list"
where
  "cleanse_try RunCmd TmpFilePath OutputFilePath Idx OriginalByte [] s = s"
| "cleanse_try RunCmd TmpFilePath OutputFilePath Idx OriginalByte (NewByte # Bytes) (U, Changed, tr) =
     (let U1 = U[Idx := NewByte];
          ExitCode = RunCmd U1;
          tr1 = tr @ [WriteToFile U1 TmpFilePath, ExecuteCommand ExitCode, RemoveFile TmpFilePath]
      in if ExitCode = 0
         then cleanse_try RunCmd TmpFilePath OutputFilePath Idx OriginalByte Bytes
                (U1[Idx := OriginalByte], Changed, tr1)
         else (U1, True,
               tr1 @ [Printf ''CLEANSE: Replaced byte %zd with 0x%x\<newline>'' [AUInt Idx, AUInt (unat NewByte)],
                      WriteToFile U1 OutputFilePath]))"

text \<open>The body of the loop over \<open>Idx\<close>; \<open>std::find\<close> in \<open>ReplacementBytes\<close> is membership.\<close>

definition cleanse_index ::
  "(Unit \<Rightarrow> cint) \<Rightarrow> string \<Rightarrow> string \<Rightarrow> nat \<Rightarrow> nat \<Rightarrow> nat
   \<Rightarrow> Unit \<times> bool \<times> event list \<Rightarrow> Unit \<times> bool \<times> event list"
where
  "cleanse_index RunCmd TmpFilePath OutputFilePath NumAttempts Size Idx s =
     (case s of (U, Changed, tr) \<Rightarrow>
        (let tr0 = tr @ [Printf ''CLEANSE[%d]: Trying to replace byte %zd of %zd\<newline>''
                           [AInt (int NumAttempts), AUInt Idx, AUInt Size]];
             OriginalByte = U ! Idx
         in if OriginalByte \<in> set ReplacementBytes then (U, Changed, tr0)
            else cleanse_try RunCmd TmpFilePath OutputFilePath Idx OriginalByte ReplacementBytes
                   (U, Changed, tr0)))"

text \<open>One pass: \<open>Idx\<close> runs from 0 to \<open>Size - 1\<close>, \<open>Size\<close> being the length of \<open>U\<close>, which no
  step changes.\<close>

definition cleanse_pass ::
  "(Unit \<Rightarrow> cint) \<Rightarrow> string \<Rightarrow> string \<Rightarrow> nat \<Rightarrow> nat
   \<Rightarrow> Unit \<times> bool \<times> event list \<Rightarrow> Unit \<times> bool \<times> event list"
where
  "cleanse_pass RunCmd TmpFilePath OutputFilePath NumAttempts Size s =
     fold (cleanse_index RunCmd TmpFilePath OutputFilePath NumAttempts Size) [0..<Size] s"

text \<open>The loop over \<open>NumAttempts\<close>: at most five passes, the last one a pass that changed
  nothing.\<close>

function cleanse_loop ::
  "(Unit \<Rightarrow> cint) \<Rightarrow> string \<Rightarrow> string \<Rightarrow> nat \<Rightarrow> nat \<Rightarrow> Unit \<times> event list \<Rightarrow> Unit \<times> event list"
where
  "cleanse_loop RunCmd TmpFilePath OutputFilePath Size NumAttempts s =
     (if NumAttempts < 5 then
        (case cleanse_pass RunCmd TmpFilePath OutputFilePath NumAttempts Size (fst s, False, snd s) of
           (U, Changed, tr) \<Rightarrow>
             if \<not> Changed then (U, tr)
             else cleanse_loop RunCmd TmpFilePath OutputFilePath Size (NumAttempts + 1) (U, tr))
      else s)"
  by pat_completeness auto
termination
  by (relation "measure (\<lambda>(RunCmd, TmpFilePath, OutputFilePath, Size, NumAttempts, s). 5 - NumAttempts)")
    auto

declare cleanse_loop.simps [simp del]

text \<open>
  \<open>CleanseCrashInput\<close> with \<open>Inputs\<close> (here \<open>Inps\<close>) and \<open>Flags.exact_artifact_path\<close>; the
  result is how it ends, the buffer \<open>U\<close> at that moment (empty when it exits before reading
  the input) and the events. The assertion that the arguments hold the input path is not
  modelled: \<open>Inputs\<close> is taken from the arguments.
\<close>

definition CleanseCrashInput ::
  "Env \<Rightarrow> (Unit \<Rightarrow> cint) \<Rightarrow> string list \<Rightarrow> string option \<Rightarrow> outcome \<times> Unit \<times> event list"
where
  "CleanseCrashInput env RunCmd Inps exact_artifact_path =
     (if length Inps \<noteq> 1 \<or> exact_artifact_path = None then
        (Exited 1, [],
         [Printf ''ERROR: -cleanse_crash should be given one input file and -exact_artifact_path\<newline>'' []])
      else
        (let InputFilePath = Inps ! 0;
             OutputFilePath = the exact_artifact_path;
             TmpFilePath = TempPath env ''CleanseCrashInput'' ''.repro'';
             U = FileToVector env InputFilePath 0;
             Size = length U
         in case cleanse_loop RunCmd TmpFilePath OutputFilePath Size 0 (U, []) of
              (U1, tr) \<Rightarrow> (Returned 0, U1, tr)))"

subsection \<open>Merge\<close>

text \<open>
  \<open>Merge\<close> with the flags, \<open>Options.MaxLen\<close>, the arguments, the corpus directories and the
  control file path. Both of its paths end in \<open>exit(0)\<close>.
\<close>

definition Merge ::
  "Env \<Rightarrow> FlagsT \<Rightarrow> nat \<Rightarrow> string list \<Rightarrow> string list \<Rightarrow> string option \<Rightarrow> outcome \<times> event list"
where
  "Merge env F MaxLen Args Corpora CFPathOrNull =
     (if length Corpora < 2 then
        (Exited 0, [Printf ''INFO: Merge requires two or more corpus dirs\<newline>'' []])
      else
        (let OldCorpus = SortSizedFiles env (GetSizedFilesFromDir env (Corpora ! 0));
             NewCorpus = SortSizedFiles env (concat (map (GetSizedFilesFromDir env) (drop 1 Corpora)));
             CFPath = (case CFPathOrNull of Some P \<Rightarrow> P | None \<Rightarrow> TempPath env ''Merge'' ''.txt'');
             NewFiles = CrashResistantMerge env Args OldCorpus NewCorpus CFPath
                          (NumFlag F ''set_cover_merge'' \<noteq> 0)
         in (Exited 0,
             map (\<lambda>Path. WriteToOutputCorpus (FileToVector env Path MaxLen)) NewFiles
             @ (if StrFlagV F ''merge_control_file'' = None then [RemoveFile CFPath] else []))))"

text \<open>
  The place of \<open>FuzzerDriver\<close> that enters merge mode:
  \<^verbatim>\<open>if (Flags.merge || Flags.set_cover_merge)
    Merge(F, Options, Args, *Inputs, Flags.merge_control_file);\<close>
  \<open>None\<close> when the driver goes on to the next mode.
\<close>

definition FuzzerDriver_merge ::
  "Env \<Rightarrow> FlagsT \<Rightarrow> nat \<Rightarrow> string list \<Rightarrow> string list \<Rightarrow> (outcome \<times> event list) option"
where
  "FuzzerDriver_merge env F MaxLen Args Inps =
     (if NumFlag F ''merge'' \<noteq> 0 \<or> NumFlag F ''set_cover_merge'' \<noteq> 0
      then Some (Merge env F MaxLen Args Inps (StrFlagV F ''merge_control_file''))
      else None)"

subsection \<open>ParseSeedInuts\<close>

text \<open>\<open>std::string::find_last_of(c)\<close>: the last position of \<open>c\<close>, \<open>None\<close> for \<open>npos\<close>.\<close>

fun find_last_of :: "string \<Rightarrow> char \<Rightarrow> nat option" where
  "find_last_of [] c = None"
| "find_last_of (x # xs) c =
     (case find_last_of xs c of
        Some p \<Rightarrow> Some (Suc p)
      | None \<Rightarrow> if x = c then Some 0 else None)"

text \<open>The loop that splits at the last comma, with \<open>SeedInputs\<close> and \<open>Files\<close> as its state.\<close>

function ParseSeedInuts_loop :: "string \<Rightarrow> string list \<Rightarrow> string list" where
  "ParseSeedInuts_loop SeedInputs Files =
     (case find_last_of SeedInputs CHR '','' of
        Some comma_pos \<Rightarrow>
          ParseSeedInuts_loop (take comma_pos SeedInputs) (Files @ [drop (comma_pos + 1) SeedInputs])
      | None \<Rightarrow> Files @ [SeedInputs])"
  by pat_completeness auto
termination
proof (relation "measure (\<lambda>(SeedInputs, Files). length SeedInputs)")
  show "wf (measure (\<lambda>(SeedInputs, Files). length SeedInputs))"
    by simp
next
  fix SeedInputs :: string and Files :: "string list" and comma_pos :: nat
  assume found: "find_last_of SeedInputs CHR '','' = Some comma_pos"
  have less: "find_last_of s c = Some p \<Longrightarrow> p < length s" for s c p
    by (induction s arbitrary: p) (auto split: option.splits if_splits)
  have "comma_pos < length SeedInputs"
    by (rule less [OF found])
  then show "((take comma_pos SeedInputs, Files @ [drop (comma_pos + 1) SeedInputs]),
              (SeedInputs, Files)) \<in> measure (\<lambda>(SeedInputs, Files). length SeedInputs)"
    by simp
qed

declare ParseSeedInuts_loop.simps [simp del]

text \<open>
  \<open>ParseSeedInuts\<close> tests its parameter against null and then reads \<open>Flags.seed_inputs\<close>; its
  only caller passes \<open>Flags.seed_inputs\<close> itself. Reading through a null \<open>Flags.seed_inputs\<close>
  is \<open>NullDereference\<close>; an empty list ends the process with status 1.
\<close>

datatype failure = ProcessExit cint | NullDereference

definition ParseSeedInuts ::
  "Env \<Rightarrow> FlagsT \<Rightarrow> string option \<Rightarrow> (failure + string list) \<times> event list"
where
  "ParseSeedInuts env F seed_inputs =
     (case seed_inputs of
        None \<Rightarrow> (Inr [], [])
      | Some _ \<Rightarrow>
          (case StrFlagV F ''seed_inputs'' of
             None \<Rightarrow> (Inl NullDereference, [])
           | Some fs \<Rightarrow>
               (let SeedInputs = (if c_at fs 0 = CHR ''@'' then FileToString env (drop 1 fs) else fs)
                in if SeedInputs = []
                   then (Inl (ProcessExit 1),
                         [Printf ''seed_inputs is empty or @file does not exist.\<newline>'' []])
                   else (Inr (ParseSeedInuts_loop SeedInputs []), []))))"

text \<open>The elements of a comma-separated list in the order of the text (the specification's
  reading of the list).\<close>

fun split_commas :: "string \<Rightarrow> string list" where
  "split_commas [] = [[]]"
| "split_commas (c # cs) =
     (if c = CHR '','' then [] # split_commas cs
      else (case split_commas cs of
              [] \<Rightarrow> [[c]]
            | w # ws \<Rightarrow> (c # w) # ws))"

text \<open>Writing a list of elements with commas between them.\<close>

fun join_commas :: "string list \<Rightarrow> string" where
  "join_commas [] = []"
| "join_commas [w] = w"
| "join_commas (w # v # ws) = w @ CHR '','' # join_commas (v # ws)"

subsection \<open>AnalyzeDictionary\<close>

text \<open>
  \<open>std::search(first, last, s_first, s_last)\<close> on a range given as a list: the offset of the
  first occurrence of the needle, the length of the range (\<open>last\<close>) when there is none.
\<close>

fun search :: "'a list \<Rightarrow> 'a list \<Rightarrow> nat" where
  "search [] needle = 0"
| "search (h # hay) needle =
     (if take (length needle) (h # hay) = needle then 0 else Suc (search hay needle))"

text \<open>\<^verbatim>\<open>for (auto It = StartPos; It != EndPos; ++It) *It ^= 0xFF;\<close>\<close>

definition xor_range :: "Unit \<Rightarrow> nat \<Rightarrow> nat \<Rightarrow> Unit" where
  "xor_range Data StartPos EndPos =
     take StartPos Data
     @ map (\<lambda>b. xor b 0xFF) (take (EndPos - StartPos) (drop StartPos Data))
     @ drop EndPos Data"

text \<open>
  The loop \<^verbatim>\<open>while (StartPos != Data.end())\<close> that masks every occurrence of the dictionary
  unit \<open>W\<close>. With an empty \<open>W\<close> and a position before the end, \<open>EndPos\<close> is \<open>StartPos\<close> and the next
  search answers \<open>EndPos\<close> again: the loop does not end, and the result is \<open>None\<close>.
\<close>

partial_function (option) mask_occurrences :: "Unit \<Rightarrow> Unit \<Rightarrow> nat \<Rightarrow> Unit option" where
  "mask_occurrences W Data StartPos =
     (if StartPos = length Data then Some Data
      else mask_occurrences W
             (xor_range Data StartPos (StartPos + length W))
             (StartPos + length W
              + search (drop (StartPos + length W) (xor_range Data StartPos (StartPos + length W))) W))"

declare mask_occurrences.simps [code]

text \<open>
  \<open>Exec ts Data\<close> is \<open>F->ExecuteCallback(Data)\<close> followed by \<open>TPC.CollectFeatures\<close>: from the
  state \<open>ts\<close> of the target and of the coverage tracer to the new state and the features
  collected. The state of the analysis is \<open>Scores\<close>, \<open>Usages\<close> (vectors of \<open>int\<close>) and \<open>ts\<close>.
  The body of the loop over the dictionary, for the unit \<open>C\<close> of the corpus:
\<close>

definition analyze_entry ::
  "('ts \<Rightarrow> Unit \<Rightarrow> 'ts \<times> nat list) \<Rightarrow> Unit list \<Rightarrow> Unit \<Rightarrow> nat list \<Rightarrow> nat
   \<Rightarrow> cint list \<times> cint list \<times> 'ts \<Rightarrow> (cint list \<times> cint list \<times> 'ts) option"
where
  "analyze_entry Exec Dict C InitialFeatures i s =
     (case s of (Scores, Usages, ts) \<Rightarrow>
        (let StartPos = search C (Dict ! i)
         in if StartPos = length C then Some s
            else (let Usages1 = Usages[i := Usages ! i + 1]
                  in case mask_occurrences (Dict ! i) C StartPos of
                       None \<Rightarrow> None
                     | Some Data \<Rightarrow>
                         (case Exec ts Data of
                            (ts1, ModifiedFeatures) \<Rightarrow>
                              Some (if InitialFeatures = ModifiedFeatures
                                    then Scores[i := Scores ! i - 1]
                                    else Scores[i := Scores ! i + 2],
                                    Usages1, ts1)))))"

fun analyze_entries ::
  "('ts \<Rightarrow> Unit \<Rightarrow> 'ts \<times> nat list) \<Rightarrow> Unit list \<Rightarrow> Unit \<Rightarrow> nat list \<Rightarrow> nat list
   \<Rightarrow> cint list \<times> cint list \<times> 'ts \<Rightarrow> (cint list \<times> cint list \<times> 'ts) option"
where
  "analyze_entries Exec Dict C InitialFeatures [] s = Some s"
| "analyze_entries Exec Dict C InitialFeatures (i # is) s =
     (case analyze_entry Exec Dict C InitialFeatures i s of
        None \<Rightarrow> None
      | Some s1 \<Rightarrow> analyze_entries Exec Dict C InitialFeatures is s1)"

text \<open>The loop over the corpus: each unit is run unmodified first.\<close>

fun analyze_corpus ::
  "('ts \<Rightarrow> Unit \<Rightarrow> 'ts \<times> nat list) \<Rightarrow> Unit list \<Rightarrow> Unit list
   \<Rightarrow> cint list \<times> cint list \<times> 'ts \<Rightarrow> (cint list \<times> cint list \<times> 'ts) option"
where
  "analyze_corpus Exec Dict [] s = Some s"
| "analyze_corpus Exec Dict (C # Cs) s =
     (case s of (Scores, Usages, ts) \<Rightarrow>
        (case Exec ts C of
           (ts1, InitialFeatures) \<Rightarrow>
             (case analyze_entries Exec Dict C InitialFeatures [0..<length Dict] (Scores, Usages, ts1) of
                None \<Rightarrow> None
              | Some s1 \<Rightarrow> analyze_corpus Exec Dict Cs s1)))"

text \<open>What the last loop prints for the unit \<open>i\<close>: nothing when its score is positive.\<close>

definition print_useless :: "Unit list \<Rightarrow> cint list \<Rightarrow> cint list \<Rightarrow> nat \<Rightarrow> event list" where
  "print_useless Dict Scores Usages i =
     (if 0 < sint (Scores ! i) then []
      else [Printf [CHR 0x22] [],
            PrintASCII (Dict ! i) [CHR 0x22],
            Printf '' # Score: %d, Used: %d\<newline>'' [AInt (sint (Scores ! i)), AInt (sint (Usages ! i))]])"

text \<open>\<open>AnalyzeDictionary\<close>: the value returned, the two vectors, the events and the state of
  the target; \<open>None\<close> when a loop does not end.\<close>

definition AnalyzeDictionary ::
  "('ts \<Rightarrow> Unit \<Rightarrow> 'ts \<times> nat list) \<Rightarrow> Unit list \<Rightarrow> Unit list \<Rightarrow> 'ts
   \<Rightarrow> (outcome \<times> cint list \<times> cint list \<times> event list \<times> 'ts) option"
where
  "AnalyzeDictionary Exec Dict Corpus ts =
     (case analyze_corpus Exec Dict Corpus
             (replicate (length Dict) 0, replicate (length Dict) 0, ts) of
        None \<Rightarrow> None
      | Some (Scores, Usages, ts1) \<Rightarrow>
          Some (Returned 0, Scores, Usages,
                [Printf ''Started dictionary minimization (up to %zu tests)\<newline>''
                   [AUInt (unat (word_of_nat (length Dict) * word_of_nat (length Corpus) * (2 :: 64 word)))],
                 Printf ''###### Useless dictionary elements. ######\<newline>'' []]
                @ concat (map (print_useless Dict Scores Usages) [0..<length Dict])
                @ [Printf ''###### End of useless dictionary elements. ######\<newline>'' []],
                ts1))"

subsection \<open>WorkerThread and RunInMultipleProcesses\<close>

text \<open>
  A worker thread is at one of four places: before the fetch of the counter, inside
  \<open>ExecuteCommand\<close> for the job \<open>C\<close> it fetched, before the report of that job (which it
  prints holding the mutex \<open>Mu\<close>), or behind its loop. The threads share the counter and the
  error flag, both atomic. \<open>Jobs\<close> lists the job IDs in the order they were fetched, each with
  the thread that fetched it.
\<close>

datatype worker = Fetching | Running unsigned | Reporting unsigned cint | Finished

record Pool =
  Counter :: unsigned
  HasErrors :: bool
  Workers :: "worker list"
  Jobs :: "(nat \<times> unsigned) list"
  PoolOut :: "event list"

text \<open>
  One step of the thread \<open>i\<close>. The fetch \<^verbatim>\<open>unsigned C = (*Counter)++\<close> is one atomic
  action on a 32-bit counter, which wraps; the test \<open>C >= NumJobs\<close> reads the thread's own
  \<open>C\<close>. \<open>JobExit C\<close> is the exit code of the subprocess of the job \<open>C\<close>. A thread that has
  finished, and an index that is no thread, do nothing. The name of the log file, the print
  of the command line at a verbosity above 0 and \<open>CopyFileToErr\<close> are not among the events;
  neither they nor the pulse thread touch the counter.
\<close>

definition WorkerThread_step :: "(unsigned \<Rightarrow> cint) \<Rightarrow> unsigned \<Rightarrow> nat \<Rightarrow> Pool \<Rightarrow> Pool" where
  "WorkerThread_step JobExit NumJobs i p =
     (if length (Workers p) \<le> i then p
      else (case Workers p ! i of
              Fetching \<Rightarrow>
                (let C = Counter p;
                     p1 = p\<lparr>Counter := Counter p + 1\<rparr>
                 in if NumJobs \<le> C then p1\<lparr>Workers := (Workers p1)[i := Finished]\<rparr>
                    else p1\<lparr>Workers := (Workers p1)[i := Running C], Jobs := Jobs p1 @ [(i, C)]\<rparr>)
            | Running C \<Rightarrow>
                (let ExitCode = JobExit C
                 in p\<lparr>HasErrors := (HasErrors p \<or> ExitCode \<noteq> 0),
                      Workers := (Workers p)[i := Reporting C ExitCode],
                      PoolOut := PoolOut p @ [ExecuteCommand ExitCode]\<rparr>)
            | Reporting C ExitCode \<Rightarrow>
                p\<lparr>Workers := (Workers p)[i := Fetching],
                  PoolOut := PoolOut p @
                    [Printf ''================== Job %u exited with exit code %d ============\<newline>''
                       [AUInt (unat C), AInt (sint ExitCode)]]\<rparr>
            | Finished \<Rightarrow> p))"

text \<open>
  \<open>RunInMultipleProcesses\<close> starts \<open>NumWorkers\<close> threads on a counter at 0. An interleaving of
  the threads is a schedule: the list of the threads that take the next step. \<open>join\<close> returns
  once every thread has finished; \<open>None\<close> says that the schedule ends before that.
\<close>

definition init_pool :: "unsigned \<Rightarrow> Pool" where
  "init_pool NumWorkers =
     \<lparr>Counter = 0, HasErrors = False, Workers = replicate (unat NumWorkers) Fetching,
      Jobs = [], PoolOut = []\<rparr>"

definition run_workers :: "(unsigned \<Rightarrow> cint) \<Rightarrow> unsigned \<Rightarrow> unsigned \<Rightarrow> nat list \<Rightarrow> Pool" where
  "run_workers JobExit NumWorkers NumJobs schedule =
     fold (WorkerThread_step JobExit NumJobs) schedule (init_pool NumWorkers)"

definition all_finished :: "Pool \<Rightarrow> bool" where
  "all_finished p = list_all (\<lambda>w. w = Finished) (Workers p)"

definition RunInMultipleProcesses ::
  "(unsigned \<Rightarrow> cint) \<Rightarrow> unsigned \<Rightarrow> unsigned \<Rightarrow> nat list \<Rightarrow> cint option"
where
  "RunInMultipleProcesses JobExit NumWorkers NumJobs schedule =
     (let p = run_workers JobExit NumWorkers NumJobs schedule
      in if all_finished p then Some (if HasErrors p then 1 else 0) else None)"

text \<open>The job IDs that the threads have fetched, in the order of the fetches.\<close>

definition job_ids :: "Pool \<Rightarrow> unsigned list" where
  "job_ids p = map snd (Jobs p)"

section \<open>Predicates of the properties\<close>

subsection \<open>Values parsed from tokens\<close>

text \<open>
  \<open>token_num\<close>: the token \<open>A\<close> is \<open>-n=<v>\<close> and \<open>x\<close> is what a flag of kind \<open>k\<close> gets from
  \<open>v\<close> (through \<open>MyStol\<close> for \<open>int\<close>, through \<open>std::stoul\<close> for \<open>unsigned\<close>). \<open>token_str\<close>: the
  same for a string flag, whose value is \<open>v\<close> itself. \<open>parsed_num\<close> and \<open>parsed_str\<close>: some
  token of the list gives the value to the flag of the row \<open>D\<close>.
\<close>

definition token_num :: "(string \<Rightarrow> 64 word option) \<Rightarrow> FlagKind \<Rightarrow> string \<Rightarrow> string \<Rightarrow> cint \<Rightarrow> bool" where
  "token_num stoul k A n x =
     (case FlagValue A n of
        None \<Rightarrow> False
      | Some v \<Rightarrow>
          (case k of
             IntFlag \<Rightarrow> x = ucast (MyStol v)
           | UIntFlag \<Rightarrow> (case stoul v of None \<Rightarrow> False | Some w \<Rightarrow> x = ucast w)
           | StrFlag \<Rightarrow> False
           | DeprecatedFlag \<Rightarrow> False))"

definition token_str :: "FlagKind \<Rightarrow> string \<Rightarrow> string \<Rightarrow> string option \<Rightarrow> bool" where
  "token_str k A n x = (k = StrFlag \<and> FlagValue A n \<noteq> None \<and> x = FlagValue A n)"

definition parsed_num ::
  "(string \<Rightarrow> 64 word option) \<Rightarrow> string list \<Rightarrow> FlagDescription \<Rightarrow> cint \<Rightarrow> bool"
where
  "parsed_num stoul args D x = list_ex (\<lambda>A. token_num stoul (Kind D) A (Name D) x) args"

definition parsed_str :: "string list \<Rightarrow> FlagDescription \<Rightarrow> string option \<Rightarrow> bool" where
  "parsed_str args D x = list_ex (\<lambda>A. token_str (Kind D) A (Name D) x) args"

subsection \<open>What the cleanser keeps\<close>

text \<open>
  \<open>commits_crash\<close>: every buffer written to the path \<open>Outp\<close> makes the command fail.
  \<open>cleanse_inv\<close>, for a state \<open>s\<close> of the loops and the buffer \<open>U0\<close> they started from: the
  length is that of \<open>U0\<close>; the buffer is \<open>U0\<close> or makes the command fail; and, where \<open>ok\<close>
  holds, the events satisfy \<open>commits_crash\<close>.
\<close>

definition commits_crash :: "(Unit \<Rightarrow> cint) \<Rightarrow> string \<Rightarrow> event list \<Rightarrow> bool" where
  "commits_crash RunCmd Outp tr = (\<forall>B. WriteToFile B Outp \<in> set tr \<longrightarrow> RunCmd B \<noteq> 0)"

definition cleanse_inv ::
  "(Unit \<Rightarrow> cint) \<Rightarrow> string \<Rightarrow> bool \<Rightarrow> Unit \<Rightarrow> Unit \<times> bool \<times> event list \<Rightarrow> bool"
where
  "cleanse_inv RunCmd Outp ok U0 s =
     (length (fst s) = length U0 \<and> (fst s = U0 \<or> RunCmd (fst s) \<noteq> 0) \<and>
      (ok \<longrightarrow> commits_crash RunCmd Outp (snd (snd s))))"

subsection \<open>What the worker pool keeps\<close>

text \<open>
  \<open>pool_inv W NumJobs\<close>, for \<open>W\<close> threads: with \<open>k\<close> job IDs fetched so far, these are
  0, ..., \<open>k - 1\<close> in this order; \<open>k\<close> is at most \<open>NumJobs\<close>; the counter is \<open>k\<close> plus the
  number of threads that have finished; and a thread has finished only when all \<open>NumJobs\<close>
  IDs have been fetched.
\<close>

definition finished_count :: "Pool \<Rightarrow> nat" where
  "finished_count p = count_list (Workers p) Finished"

definition pool_inv :: "nat \<Rightarrow> unsigned \<Rightarrow> Pool \<Rightarrow> bool" where
  "pool_inv W NumJobs p =
     (length (Workers p) = W \<and>
      job_ids p = map word_of_nat [0..<length (Jobs p)] \<and>
      length (Jobs p) \<le> unat NumJobs \<and>
      Counter p = word_of_nat (length (Jobs p) + finished_count p) \<and>
      (0 < finished_count p \<longrightarrow> length (Jobs p) = unat NumJobs))"

section \<open>Concrete inputs\<close>

text \<open>A table with four of libFuzzer's flags, a custom mutator that is present, and a
  \<open>std::stoul\<close> that is never reached.\<close>

definition small_table :: "FlagDescription list" where
  "small_table =
     [\<lparr>Name = ''verbosity'', Description = ''Verbosity level.'', Default = 1, Kind = IntFlag\<rparr>,
      \<lparr>Name = ''len_control'', Description = ''Try generating small inputs first.'',
        Default = 100, Kind = IntFlag\<rparr>,
      \<lparr>Name = ''seed'', Description = ''Random seed.'', Default = 0, Kind = UIntFlag\<rparr>,
      \<lparr>Name = ''dict'', Description = ''Use the dictionary file.'', Default = 0, Kind = StrFlag\<rparr>]"

definition with_custom_mutator :: ExternalFunctions where
  "with_custom_mutator = \<lparr>LLVMFuzzerCustomMutator = Some 4096\<rparr>"

definition no_stoul :: "string \<Rightarrow> 64 word option" where
  "no_stoul s = None"

text \<open>Flags in which only \<open>seed_inputs\<close> is set.\<close>

definition seed_flags :: "string \<Rightarrow> FlagsT" where
  "seed_flags fs = \<lparr>NumFlag = (\<lambda>_. 0), StrFlagV = (\<lambda>_. None)(''seed_inputs'' := Some fs)\<rparr>"

text \<open>A file system whose directories and files are all empty, and flags in which only
  \<open>merge\<close> is set.\<close>

definition empty_env :: Env where
  "empty_env =
     \<lparr>FileToVector = (\<lambda>Path MaxLen. []), FileToString = (\<lambda>Path. []),
      TempPath = (\<lambda>Prefix Extension. Prefix @ Extension),
      GetSizedFilesFromDir = (\<lambda>Dir. []), SortSizedFiles = (\<lambda>V. V),
      CrashResistantMerge = (\<lambda>Args OldCorpus NewCorpus CFPath IsSetCoverMerge. [])\<rparr>"

definition merge_flags :: FlagsT where
  "merge_flags = \<lparr>NumFlag = (\<lambda>_. 0)(''merge'' := 1), StrFlagV = (\<lambda>_. None)\<rparr>"

text \<open>A crashing input that is one space, and a target that crashes on every input.\<close>

definition space_env :: Env where
  "space_env = empty_env\<lparr>FileToVector := (\<lambda>Path MaxLen. [0x20])\<rparr>"

definition always_crash :: "Unit \<Rightarrow> cint" where
  "always_crash U = 1"

text \<open>An input \<open>AXB\<close> of which only the \<open>X\<close> matters to the crash.\<close>

definition axb_env :: Env where
  "axb_env = empty_env\<lparr>FileToVector := (\<lambda>Path MaxLen. [0x41, 0x58, 0x42])\<rparr>"

definition crash_on_X :: "Unit \<Rightarrow> cint" where
  "crash_on_X U = (if 0x58 \<in> set U then 1 else 0)"

text \<open>A target whose features are the bytes of its input, and that counts its runs.\<close>

definition byte_features :: "nat \<Rightarrow> Unit \<Rightarrow> nat \<times> nat list" where
  "byte_features ts Data = (ts + 1, map unat Data)"

text \<open>Jobs that all exit with 0.\<close>

definition jobs_succeed :: "unsigned \<Rightarrow> cint" where
  "jobs_succeed C = 0"

section \<open>Properties\<close>

subsection \<open>FlagValue\<close>

lemma strstr_Some0: "strstr hay needle = Some 0 \<longleftrightarrow> take (length needle) hay = needle"
  by (cases hay) auto

lemma FlagValue_iff:
  "FlagValue Param Nm = Some v \<longleftrightarrow> Param = CHR ''-'' # Nm @ CHR ''='' # v"
proof
  assume "FlagValue Param Nm = Some v"
  then have a: "c_at Param 0 = CHR ''-''" and b: "take (length Nm) (drop 1 Param) = Nm"
    and c: "c_at Param (length Nm + 1) = CHR ''=''" and d: "v = drop (length Nm + 2) Param"
    by (auto simp: FlagValue_def Let_def strstr_Some0 split: if_splits)
  from a obtain rest where p: "Param = CHR ''-'' # rest"
    by (cases Param) (auto simp: c_at_def)
  from b p have r: "take (length Nm) rest = Nm" by simp
  from c p have l: "length Nm < length rest" and e: "rest ! length Nm = CHR ''=''"
    by (auto simp: c_at_def split: if_splits)
  have "rest = take (length Nm) rest @ (rest ! length Nm) # drop (Suc (length Nm)) rest"
    using l by (simp add: id_take_nth_drop [symmetric])
  with r e d p show "Param = CHR ''-'' # Nm @ CHR ''='' # v" by simp
next
  assume "Param = CHR ''-'' # Nm @ CHR ''='' # v"
  then show "FlagValue Param Nm = Some v"
    by (simp add: FlagValue_def Let_def strstr_Some0 c_at_def nth_append)
qed

text \<open>
  Claim C6. \<open>FlagValue(Param, Name)\<close> returns the text behind \<open>=\<close> exactly when \<open>Param\<close> is
  one \<open>-\<close>, then \<open>Name\<close> character for character, then \<open>=\<close>; it returns \<open>bar\<close> for \<open>-foo=bar\<close>
  and \<open>foo\<close>, and null for \<open>--foo=bar\<close> and for \<open>-foobar=x\<close> with \<open>foo\<close>.
\<close>

theorem FlagValue_exact_name:
  "(FlagValue Param Nm = Some v) = (Param = CHR ''-'' # Nm @ CHR ''='' # v) \<and>
   FlagValue ''-foo=bar'' ''foo'' = Some ''bar'' \<and>
   FlagValue ''--foo=bar'' ''foo'' = None \<and>
   FlagValue ''-foobar=x'' ''foo'' = None"
proof -
  have "FlagValue ''-foo=bar'' ''foo'' = Some ''bar''"
    by (simp add: FlagValue_def c_at_def)
  moreover have "FlagValue ''--foo=bar'' ''foo'' = None"
    by (simp add: FlagValue_def c_at_def)
  moreover have "FlagValue ''-foobar=x'' ''foo'' = None"
    by (simp add: FlagValue_def c_at_def)
  ultimately show ?thesis
    using FlagValue_iff [of Param Nm v] by simp
qed

subsection \<open>MyStol\<close>

text \<open>
  Claim C7. \<open>MyStol("")\<close> is 0, \<open>MyStol("-")\<close> is 0, \<open>MyStol("123x4")\<close> is 123 (the parse stops
  at the first character that is no digit) and \<open>MyStol("-7")\<close> is -7.
\<close>

theorem MyStol_boundaries:
  "MyStol [] = 0 \<and> MyStol ''-'' = 0 \<and> MyStol ''123x4'' = 123 \<and> sint (MyStol ''123x4'') = 123 \<and>
   MyStol ''-7'' = - 7 \<and> sint (MyStol ''-7'') = - 7"
  by (simp add: MyStol_def c_at_def)

lemma MyStol_loop_digits:
  "\<forall>c\<in>set ds. is_digit c \<Longrightarrow>
   MyStol_loop Res Sign (ds @ rest) =
   MyStol_loop (foldl (\<lambda>r c. r * 10 + word_of_nat (digit_value c)) Res ds) Sign rest"
proof (induction ds arbitrary: Res)
  case Nil
  then show ?case by simp
next
  case (Cons d ds)
  from Cons.prems have d: "is_digit d" by simp
  then have "d \<noteq> CHR 0x00" by (auto simp: is_digit_def)
  with d Cons show ?case
    by (simp add: is_digit_def digit_value_def not_less)
qed

lemma foldl_word_of_nat:
  "foldl (\<lambda>r c. r * 10 + word_of_nat (digit_value c)) (word_of_nat a :: long) ds =
   word_of_nat (foldl (\<lambda>a c. 10 * a + digit_value c) a ds)"
proof (induction ds arbitrary: a)
  case Nil
  then show ?case by simp
next
  case (Cons d ds)
  have e: "word_of_nat a * 10 + word_of_nat (digit_value d) =
           (word_of_nat (10 * a + digit_value d) :: long)"
    by simp
  show ?case by (simp only: foldl_Cons e Cons.IH)
qed

lemma MyStol_loop_decimal:
  assumes "\<forall>c\<in>set ds. is_digit c"
  shows "MyStol_loop 0 Sign (ds @ rest) = MyStol_loop (word_of_nat (decimal_value ds)) Sign rest"
  using MyStol_loop_digits [OF assms, of 0 Sign rest] foldl_word_of_nat [of 0 ds]
  by (simp add: decimal_value_def)

text \<open>
  Claim C10. For a string made of \<open>-\<close>, digits and then a character that is no digit (and
  whatever follows), \<open>MyStol\<close> returns the value of the digits and not its negation: the
  \<open>return Res\<close> at the first non-digit leaves out the multiplication by \<open>Sign\<close>, which the
  same digits with nothing behind them do get. The value is the decimal value of the digits
  as a 64-bit word, so the signed result is that value whenever it is below \<open>2^63\<close>; for
  \<open>-12x\<close> it is 12.
\<close>

theorem MyStol_sign_dropped:
  assumes digits: "\<forall>d\<in>set ds. is_digit d" and nd: "\<not> is_digit c" and nz: "c \<noteq> CHR 0x00"
  shows "MyStol (CHR ''-'' # ds @ c # rest) = word_of_nat (decimal_value ds) \<and>
         MyStol (CHR ''-'' # ds) = - word_of_nat (decimal_value ds) \<and>
         (decimal_value ds < 2 ^ 63 \<longrightarrow>
            sint (MyStol (CHR ''-'' # ds @ c # rest)) = int (decimal_value ds)) \<and>
         MyStol ''-12x'' = 12"
proof -
  have a: "MyStol (CHR ''-'' # ds @ c # rest) = word_of_nat (decimal_value ds)"
    using MyStol_loop_decimal [OF digits, of "- 1" "c # rest"] nd nz
    by (simp add: MyStol_def c_at_def is_digit_def not_le)
  have b: "MyStol (CHR ''-'' # ds) = - word_of_nat (decimal_value ds)"
    using MyStol_loop_decimal [OF digits, of "- 1" "[]"]
    by (simp add: MyStol_def c_at_def)
  have c: "sint (word_of_nat (decimal_value ds) :: long) = int (decimal_value ds)"
    if "decimal_value ds < 2 ^ 63"
    using that by (simp add: signed_of_nat signed_take_bit_int_eq_self)
  have d: "MyStol ''-12x'' = 12" by (simp add: MyStol_def c_at_def)
  from a b c d show ?thesis by simp
qed

theorem MyStol_sign_dropped_witness:
  "MyStol ''-45/6'' = 45 \<and> MyStol ''-45'' = - 45 \<and> sint (MyStol ''-45/6'') = 45"
proof -
  have h1: "\<forall>d\<in>set ''45''. is_digit d" by (simp add: is_digit_def)
  have h2: "\<not> is_digit CHR ''/''" by (simp add: is_digit_def)
  have h3: "CHR ''/'' \<noteq> CHR 0x00" by simp
  have v: "decimal_value ''45'' = 45" by (simp add: decimal_value_def digit_value_def)
  show ?thesis
    using MyStol_sign_dropped [OF h1 h2 h3, of "''6''"] unfolding v by simp
qed

subsection \<open>ParseSeedInuts\<close>

lemma find_last_of_None: "find_last_of s c = None \<longleftrightarrow> c \<notin> set s"
  by (induction s) (auto split: option.splits)

lemma find_last_of_Some:
  "find_last_of s c = Some p \<Longrightarrow> s = take p s @ c # drop (Suc p) s \<and> c \<notin> set (drop (Suc p) s)"
proof (induction s arbitrary: p)
  case Nil
  then show ?case by simp
next
  case (Cons x xs)
  show ?case
  proof (cases "find_last_of xs c")
    case None
    with Cons.prems have "x = c" "p = 0" by (auto split: if_splits)
    with None show ?thesis by (simp add: find_last_of_None)
  next
    case (Some q)
    with Cons.prems have p: "p = Suc q" by simp
    from Cons.IH [OF Some] p show ?thesis by simp
  qed
qed

lemma split_commas_not_Nil: "split_commas s \<noteq> []"
  by (induction s) (auto split: list.splits)

lemma split_commas_no_comma: "CHR '','' \<notin> set s \<Longrightarrow> split_commas s = [s]"
  by (induction s) auto

lemma split_commas_append:
  "split_commas (a @ CHR '','' # b) = split_commas a @ split_commas b"
proof (induction a)
  case Nil
  then show ?case by simp
next
  case (Cons x a)
  obtain w ws where s: "split_commas a = w # ws"
    using split_commas_not_Nil [of a] by (cases "split_commas a") auto
  with Cons show ?case by simp
qed

lemma ParseSeedInuts_loop_rev:
  "ParseSeedInuts_loop s Files = Files @ rev (split_commas s)"
proof (induction s Files rule: ParseSeedInuts_loop.induct)
  case (1 SeedInputs Files)
  show ?case
  proof (cases "find_last_of SeedInputs CHR '',''")
    case None
    then have n: "CHR '','' \<notin> set SeedInputs" by (simp add: find_last_of_None)
    show ?thesis
      by (subst ParseSeedInuts_loop.simps) (simp add: None split_commas_no_comma [OF n])
  next
    case (Some p)
    from find_last_of_Some [OF Some]
    have e: "SeedInputs = take p SeedInputs @ CHR '','' # drop (Suc p) SeedInputs"
      and n: "CHR '','' \<notin> set (drop (Suc p) SeedInputs)" by simp_all
    have "split_commas SeedInputs = split_commas (take p SeedInputs) @ [drop (Suc p) SeedInputs]"
      by (subst e) (simp only: split_commas_append split_commas_no_comma [OF n])
    with "1.IH" [OF Some] Some show ?thesis
      by (subst ParseSeedInuts_loop.simps) simp
  qed
qed

lemma join_split_commas: "join_commas (split_commas s) = s"
proof (induction s)
  case Nil
  then show ?case by simp
next
  case (Cons c s)
  obtain w ws where s: "split_commas s = w # ws"
    using split_commas_not_Nil [of s] by (cases "split_commas s") auto
  with Cons show ?case by (cases ws) auto
qed

lemma split_commas_elems: "w \<in> set (split_commas s) \<Longrightarrow> CHR '','' \<notin> set w"
  by (induction s arbitrary: w) (auto split: if_splits list.splits)

text \<open>
  Claim C8. For a list that is not empty, \<open>ParseSeedInuts\<close> returns its elements in the
  reverse of the order of the text, by splitting at the last comma again and again; for
  \<open>a,b,c\<close> it returns \<open>c\<close>, \<open>b\<close>, \<open>a\<close>. The list \<open>t\<close> is the flag itself, or the contents of
  the file when the flag starts with \<open>@\<close>; its elements \<open>split_commas t\<close> hold no comma and
  give \<open>t\<close> back when written with commas between them.
\<close>

theorem ParseSeedInuts_reverses:
  assumes flag: "StrFlagV F ''seed_inputs'' = Some fs"
    and tdef: "t = (if c_at fs 0 = CHR ''@'' then FileToString env (drop 1 fs) else fs)"
    and nonempty: "t \<noteq> []"
  shows "ParseSeedInuts env F (Some fs) = (Inr (rev (split_commas t)), []) \<and>
         join_commas (split_commas t) = t \<and>
         (\<forall>w\<in>set (split_commas t). CHR '','' \<notin> set w) \<and>
         (fs = ''a,b,c'' \<longrightarrow> ParseSeedInuts env F (Some fs) = (Inr [''c'', ''b'', ''a''], []))"
proof -
  have a: "ParseSeedInuts env F (Some fs) = (Inr (rev (split_commas t)), [])"
    using flag tdef nonempty by (simp add: ParseSeedInuts_def ParseSeedInuts_loop_rev)
  have b: "ParseSeedInuts env F (Some fs) = (Inr [''c'', ''b'', ''a''], [])" if "fs = ''a,b,c''"
    using flag that by (simp add: ParseSeedInuts_def ParseSeedInuts_loop_rev c_at_def)
  from a b show ?thesis
    by (simp add: join_split_commas split_commas_elems)
qed

theorem ParseSeedInuts_reverses_witness:
  "ParseSeedInuts empty_env (seed_flags ''a,b,c'') (Some ''a,b,c'') = (Inr [''c'', ''b'', ''a''], [])"
proof -
  have flag: "StrFlagV (seed_flags ''a,b,c'') ''seed_inputs'' = Some ''a,b,c''"
    by (simp add: seed_flags_def)
  have tdef: "''a,b,c'' =
              (if c_at ''a,b,c'' 0 = CHR ''@'' then FileToString empty_env (drop 1 ''a,b,c'')
               else ''a,b,c'')"
    by (simp add: c_at_def)
  have nonempty: "''a,b,c'' \<noteq> []" by simp
  from ParseSeedInuts_reverses [OF flag tdef nonempty]
  show ?thesis by simp
qed

subsection \<open>Merge\<close>

text \<open>
  Claim C3, as the code has it. With fewer than two corpus directories, merge mode prints the
  one line \<open>INFO: Merge requires two or more corpus dirs\<close> and ends the process with status
  0; it prints no \<open>ERROR:\<close> line, and no path of \<open>Merge\<close> ends with status 1.
\<close>

theorem Merge_too_few_dirs:
  assumes "length Corpora < 2"
  shows "Merge env F MaxLen Args Corpora CFPathOrNull =
           (Exited 0, [Printf ''INFO: Merge requires two or more corpus dirs\<newline>'' []]) \<and>
         (NumFlag F ''merge'' \<noteq> 0 \<or> NumFlag F ''set_cover_merge'' \<noteq> 0 \<longrightarrow>
            FuzzerDriver_merge env F MaxLen Args Corpora =
              Some (Exited 0, [Printf ''INFO: Merge requires two or more corpus dirs\<newline>'' []])) \<and>
         fst (Merge env F MaxLen Args Dirs CFPathOrNull) = Exited 0"
  using assms by (simp add: Merge_def FuzzerDriver_merge_def Let_def)

theorem Merge_too_few_dirs_witness:
  "FuzzerDriver_merge empty_env merge_flags 0 [''fuzz'', ''-merge=1''] [] =
     Some (Exited 0, [Printf ''INFO: Merge requires two or more corpus dirs\<newline>'' []])"
proof -
  have h: "length ([] :: string list) < 2" by simp
  have m: "NumFlag merge_flags ''merge'' \<noteq> 0" by (simp add: merge_flags_def)
  from Merge_too_few_dirs [OF h, of empty_env merge_flags 0 "[''fuzz'', ''-merge=1'']"] m
  show ?thesis by simp
qed

text \<open>
  The claim as stated (an \<open>ERROR:\<close> line and status 1) fails for one corpus directory
  (an existing, empty one): the line printed starts with \<open>INFO:\<close> and the status is 0.
\<close>

theorem Merge_one_dir_counterexample:
  "FuzzerDriver_merge empty_env merge_flags 0 [''fuzz'', ''-merge=1'', ''corpus''] [''corpus''] =
     Some (Exited 0, [Printf ''INFO: Merge requires two or more corpus dirs\<newline>'' []]) \<and>
   fst (Merge empty_env merge_flags 0 [''fuzz'', ''-merge=1'', ''corpus''] [''corpus''] None)
     \<noteq> Exited 1"
  by (simp add: FuzzerDriver_merge_def Merge_def merge_flags_def)

subsection \<open>CleanseCrashInput\<close>

text \<open>
  Claim C2, as the code has it. A pass visits the indices 0 to \<open>N - 1\<close> in order. At an index
  whose byte is already one of the replacement bytes 0x20 and 0xFF nothing is tried: no
  file is written and no command run (so a byte 0x20 does not get 0xFF tried, nor the
  reverse). At any other index the candidate 0x20 is tried first (the byte is set, the
  buffer written to the temporary file, the base command run, the file removed), and the
  candidate 0xFF is tried exactly when the run with 0x20 returned zero.
\<close>

theorem cleanse_candidates:
  assumes "Idx < length U"
  shows "cleanse_index RunCmd Tmp Outp NumAttempts Sz Idx (U, Changed, tr) =
     (let tr0 = tr @ [Printf ''CLEANSE[%d]: Trying to replace byte %zd of %zd\<newline>''
                        [AInt (int NumAttempts), AUInt Idx, AUInt Sz]];
          U20 = U[Idx := 0x20];
          UFF = U[Idx := 0xFF];
          try20 = [WriteToFile U20 Tmp, ExecuteCommand (RunCmd U20), RemoveFile Tmp];
          tryFF = [WriteToFile UFF Tmp, ExecuteCommand (RunCmd UFF), RemoveFile Tmp]
      in if U ! Idx = 0x20 \<or> U ! Idx = 0xFF then (U, Changed, tr0)
         else if RunCmd U20 \<noteq> 0 then
           (U20, True,
            tr0 @ try20 @ [Printf ''CLEANSE: Replaced byte %zd with 0x%x\<newline>'' [AUInt Idx, AUInt 32],
                           WriteToFile U20 Outp])
         else if RunCmd UFF \<noteq> 0 then
           (UFF, True,
            tr0 @ try20 @ tryFF @
              [Printf ''CLEANSE: Replaced byte %zd with 0x%x\<newline>'' [AUInt Idx, AUInt 255],
               WriteToFile UFF Outp])
         else (U, Changed, tr0 @ try20 @ tryFF)) \<and>
     cleanse_pass RunCmd Tmp Outp NumAttempts Sz s =
       fold (cleanse_index RunCmd Tmp Outp NumAttempts Sz) [0..<Sz] s"
  using assms by (simp add: cleanse_index_def cleanse_pass_def ReplacementBytes_def Let_def)

theorem cleanse_candidates_witness:
  "cleanse_index crash_on_X ''tmp'' ''out'' 0 3 0 ([0x41, 0x58, 0x42], False, []) =
     ([0x20, 0x58, 0x42], True,
      [Printf ''CLEANSE[%d]: Trying to replace byte %zd of %zd\<newline>'' [AInt 0, AUInt 0, AUInt 3],
       WriteToFile [0x20, 0x58, 0x42] ''tmp'', ExecuteCommand 1, RemoveFile ''tmp'',
       Printf ''CLEANSE: Replaced byte %zd with 0x%x\<newline>'' [AUInt 0, AUInt 32],
       WriteToFile [0x20, 0x58, 0x42] ''out''])"
proof -
  have h: "0 < length [0x41, 0x58, 0x42 :: 8 word]" by simp
  from cleanse_candidates [OF h, of crash_on_X "''tmp''" "''out''" 0 3 False "[]"]
  show ?thesis by (simp add: crash_on_X_def Let_def)
qed

text \<open>
  The claim as stated fails on the input that is one space, with a command that fails on
  every input: the byte differs from 0xFF, yet the run tries no candidate at all, writes no
  file and runs no command.
\<close>

theorem cleanse_space_counterexample:
  "CleanseCrashInput space_env always_crash [''crash''] (Some ''out'') =
     (Returned 0, [0x20],
      [Printf ''CLEANSE[%d]: Trying to replace byte %zd of %zd\<newline>'' [AInt 0, AUInt 0, AUInt 1]])"
  by (simp add: CleanseCrashInput_def space_env_def empty_env_def cleanse_loop.simps
      cleanse_pass_def cleanse_index_def ReplacementBytes_def)

lemma cleanse_try_step:
  assumes "Idx < length U" and "U ! Idx = OriginalByte" and "ok \<longrightarrow> Tmp \<noteq> Outp"
    and "ok \<longrightarrow> commits_crash RunCmd Outp tr"
    and "cleanse_try RunCmd Tmp Outp Idx OriginalByte Bytes (U, Changed, tr) = (U', Changed', tr')"
  shows "length U' = length U \<and> (U' = U \<or> RunCmd U' \<noteq> 0) \<and>
         (ok \<longrightarrow> commits_crash RunCmd Outp tr')"
  using assms
proof (induction Bytes arbitrary: tr)
  case Nil
  then show ?case by simp
next
  case (Cons NewByte Bytes)
  let ?U1 = "U[Idx := NewByte]"
  let ?tr1 = "tr @ [WriteToFile ?U1 Tmp, ExecuteCommand (RunCmd ?U1), RemoveFile Tmp]"
  have c1: "ok \<longrightarrow> commits_crash RunCmd Outp ?tr1"
    using Cons.prems(3,4) by (auto simp: commits_crash_def)
  show ?case
  proof (cases "RunCmd ?U1 = 0")
    case True
    have restore: "?U1[Idx := OriginalByte] = U"
      using Cons.prems(1,2) by auto
    from Cons.prems(5) True restore
    have "cleanse_try RunCmd Tmp Outp Idx OriginalByte Bytes (U, Changed, ?tr1) = (U', Changed', tr')"
      by (simp add: Let_def)
    from Cons.IH [OF Cons.prems(1,2,3) c1 this] show ?thesis .
  next
    case False
    with Cons.prems(5) have "U' = ?U1"
      and "tr' = ?tr1 @ [Printf ''CLEANSE: Replaced byte %zd with 0x%x\<newline>''
                           [AUInt Idx, AUInt (unat NewByte)], WriteToFile ?U1 Outp]"
      by (auto simp: Let_def)
    with False c1 show ?thesis by (auto simp: commits_crash_def)
  qed
qed

lemma cleanse_index_inv:
  assumes "Idx < length U0" and "ok \<longrightarrow> Tmp \<noteq> Outp" and "cleanse_inv RunCmd Outp ok U0 s"
  shows "cleanse_inv RunCmd Outp ok U0 (cleanse_index RunCmd Tmp Outp NumAttempts Sz Idx s)"
proof -
  obtain U Changed tr where s: "s = (U, Changed, tr)" by (cases s) auto
  let ?tr0 = "tr @ [Printf ''CLEANSE[%d]: Trying to replace byte %zd of %zd\<newline>''
                      [AInt (int NumAttempts), AUInt Idx, AUInt Sz]]"
  from assms(3) s have len: "length U = length U0" and keep: "U = U0 \<or> RunCmd U \<noteq> 0"
    and c: "ok \<longrightarrow> commits_crash RunCmd Outp tr"
    by (simp_all add: cleanse_inv_def)
  from c have c0: "ok \<longrightarrow> commits_crash RunCmd Outp ?tr0" by (auto simp: commits_crash_def)
  show ?thesis
  proof (cases "U ! Idx \<in> set ReplacementBytes")
    case True
    with s len keep c0 show ?thesis by (simp add: cleanse_index_def cleanse_inv_def)
  next
    case False
    obtain U' Changed' tr' where
      r: "cleanse_try RunCmd Tmp Outp Idx (U ! Idx) ReplacementBytes (U, Changed, ?tr0) = (U', Changed', tr')"
      by (cases "cleanse_try RunCmd Tmp Outp Idx (U ! Idx) ReplacementBytes (U, Changed, ?tr0)") auto
    from assms(1) len have i: "Idx < length U" by simp
    from cleanse_try_step [OF i refl assms(2) c0 r] len keep
    have "cleanse_inv RunCmd Outp ok U0 (U', Changed', tr')"
      by (auto simp: cleanse_inv_def)
    with False s r show ?thesis by (simp add: cleanse_index_def Let_def)
  qed
qed

lemma cleanse_fold_inv:
  assumes "\<forall>Idx\<in>set idxs. Idx < length U0" and "ok \<longrightarrow> Tmp \<noteq> Outp"
    and "cleanse_inv RunCmd Outp ok U0 s"
  shows "cleanse_inv RunCmd Outp ok U0 (fold (cleanse_index RunCmd Tmp Outp NumAttempts Sz) idxs s)"
  using assms
proof (induction idxs arbitrary: s)
  case Nil
  then show ?case by simp
next
  case (Cons Idx idxs)
  from Cons.prems
  have "cleanse_inv RunCmd Outp ok U0 (cleanse_index RunCmd Tmp Outp NumAttempts Sz Idx s)"
    by (intro cleanse_index_inv) simp_all
  with Cons show ?case by simp
qed

lemma cleanse_pass_inv:
  assumes "ok \<longrightarrow> Tmp \<noteq> Outp" and "cleanse_inv RunCmd Outp ok U0 s"
  shows "cleanse_inv RunCmd Outp ok U0 (cleanse_pass RunCmd Tmp Outp NumAttempts (length U0) s)"
  unfolding cleanse_pass_def
  by (rule cleanse_fold_inv [OF _ assms]) simp

lemma cleanse_loop_inv:
  assumes "ok \<longrightarrow> Tmp \<noteq> Outp" and "cleanse_inv RunCmd Outp ok U0 (fst s, False, snd s)"
  shows "cleanse_inv RunCmd Outp ok U0
           (fst (cleanse_loop RunCmd Tmp Outp (length U0) NumAttempts s), False,
            snd (cleanse_loop RunCmd Tmp Outp (length U0) NumAttempts s))"
  using assms
proof (induction RunCmd Tmp Outp "length U0" NumAttempts s rule: cleanse_loop.induct)
  case (1 RunCmd Tmp Outp NumAttempts s)
  show ?case
  proof (cases "NumAttempts < 5")
    case False
    with "1.prems" show ?thesis by (subst (1 2) cleanse_loop.simps) simp
  next
    case True
    obtain U Changed tr where
      p: "cleanse_pass RunCmd Tmp Outp NumAttempts (length U0) (fst s, False, snd s) = (U, Changed, tr)"
      by (cases "cleanse_pass RunCmd Tmp Outp NumAttempts (length U0) (fst s, False, snd s)") auto
    from cleanse_pass_inv [OF "1.prems", of NumAttempts] p
    have inv: "cleanse_inv RunCmd Outp ok U0 (U, False, tr)"
      by (simp add: cleanse_inv_def)
    show ?thesis
    proof (cases Changed)
      case False
      with True p inv show ?thesis by (subst (1 2) cleanse_loop.simps) simp
    next
      case Changed: True
      from "1.hyps" [OF True p [symmetric] refl] Changed "1.prems"(1) inv
      have "cleanse_inv RunCmd Outp ok U0
              (fst (cleanse_loop RunCmd Tmp Outp (length U0) (NumAttempts + 1) (U, tr)), False,
               snd (cleanse_loop RunCmd Tmp Outp (length U0) (NumAttempts + 1) (U, tr)))"
        by simp
      with True p Changed show ?thesis by (subst (1 2) cleanse_loop.simps) simp
    qed
  qed
qed

lemma cleanse_inv_start: "cleanse_inv RunCmd Outp False U (U, Changed, tr)"
  by (simp add: cleanse_inv_def)

text \<open>
  Claim C4. After every step of the cleanser (one replacement attempt, the attempts for one
  index, one pass, the whole run) the buffer equals its value before the step or makes the
  base command return a non-zero exit code on it; and every buffer that the run writes to
  the artifact path (every committed replacement) makes the command return non-zero, the
  temporary path being another path.
\<close>

theorem cleanse_keeps_crash:
  "(Idx < length U \<longrightarrow>
      cleanse_try RunCmd Tmp Outp Idx (U ! Idx) Bytes (U, Changed, tr) = (U1, Changed1, tr1) \<longrightarrow>
      U1 = U \<or> RunCmd U1 \<noteq> 0) \<and>
   (Idx < length U \<longrightarrow>
      cleanse_index RunCmd Tmp Outp NumAttempts Sz Idx (U, Changed, tr) = (U2, Changed2, tr2) \<longrightarrow>
      U2 = U \<or> RunCmd U2 \<noteq> 0) \<and>
   (cleanse_pass RunCmd Tmp Outp NumAttempts (length U) (U, Changed, tr) = (U3, Changed3, tr3) \<longrightarrow>
      U3 = U \<or> RunCmd U3 \<noteq> 0) \<and>
   (CleanseCrashInput env RunCmd Inps (Some Artifact) = (Returned 0, U4, tr4) \<longrightarrow>
      (U4 = FileToVector env (Inps ! 0) 0 \<or> RunCmd U4 \<noteq> 0) \<and>
      (TempPath env ''CleanseCrashInput'' ''.repro'' \<noteq> Artifact \<longrightarrow>
         (\<forall>B. WriteToFile B Artifact \<in> set tr4 \<longrightarrow> RunCmd B \<noteq> 0)))"
proof -
  have a: "U1 = U \<or> RunCmd U1 \<noteq> 0"
    if "Idx < length U"
      and "cleanse_try RunCmd Tmp Outp Idx (U ! Idx) Bytes (U, Changed, tr) = (U1, Changed1, tr1)"
    using cleanse_try_step [OF that(1) refl _ _ that(2), of False] by simp
  have b: "U2 = U \<or> RunCmd U2 \<noteq> 0"
    if "Idx < length U"
      and "cleanse_index RunCmd Tmp Outp NumAttempts Sz Idx (U, Changed, tr) = (U2, Changed2, tr2)"
  proof -
    have "cleanse_inv RunCmd Outp False U
            (cleanse_index RunCmd Tmp Outp NumAttempts Sz Idx (U, Changed, tr))"
      by (rule cleanse_index_inv [OF that(1) _ cleanse_inv_start]) simp
    with that(2) show ?thesis by (simp add: cleanse_inv_def)
  qed
  have c: "U3 = U \<or> RunCmd U3 \<noteq> 0"
    if "cleanse_pass RunCmd Tmp Outp NumAttempts (length U) (U, Changed, tr) = (U3, Changed3, tr3)"
  proof -
    have "cleanse_inv RunCmd Outp False U
            (cleanse_pass RunCmd Tmp Outp NumAttempts (length U) (U, Changed, tr))"
      by (rule cleanse_pass_inv [OF _ cleanse_inv_start]) simp
    with that show ?thesis by (simp add: cleanse_inv_def)
  qed
  have d: "(U4 = FileToVector env (Inps ! 0) 0 \<or> RunCmd U4 \<noteq> 0) \<and>
           (TempPath env ''CleanseCrashInput'' ''.repro'' \<noteq> Artifact \<longrightarrow>
              (\<forall>B. WriteToFile B Artifact \<in> set tr4 \<longrightarrow> RunCmd B \<noteq> 0))"
    if r: "CleanseCrashInput env RunCmd Inps (Some Artifact) = (Returned 0, U4, tr4)"
  proof -
    let ?Tmp = "TempPath env ''CleanseCrashInput'' ''.repro''"
    let ?U0 = "FileToVector env (Inps ! 0) 0"
    let ?ok = "?Tmp \<noteq> Artifact"
    from r have one: "length Inps = 1"
      by (auto simp: CleanseCrashInput_def split: if_splits)
    with r have l: "cleanse_loop RunCmd ?Tmp Artifact (length ?U0) 0 (?U0, []) = (U4, tr4)"
      by (auto simp: CleanseCrashInput_def Let_def split: prod.splits)
    have start: "cleanse_inv RunCmd Artifact ?ok ?U0 (fst (?U0, []), False, snd (?U0, []))"
      by (simp add: cleanse_inv_def commits_crash_def)
    have "?ok \<longrightarrow> ?Tmp \<noteq> Artifact" by simp
    from cleanse_loop_inv [OF this start, of 0] l show ?thesis
      by (simp add: cleanse_inv_def commits_crash_def)
  qed
  from a b c d show ?thesis by blast
qed

lemma CleanseCrashInput_axb:
  "fst (snd (CleanseCrashInput axb_env crash_on_X [''crash''] (Some ''out''))) = [0x20, 0x58, 0x20] \<and>
   fst (CleanseCrashInput axb_env crash_on_X [''crash''] (Some ''out'')) = Returned 0"
  by (simp add: CleanseCrashInput_def axb_env_def empty_env_def cleanse_loop.simps
      cleanse_pass_def cleanse_index_def ReplacementBytes_def crash_on_X_def Let_def upt_rec)

lemma cleanse_axb_steps:
  "fst (cleanse_try crash_on_X ''tmp'' ''out'' 0 0x41 ReplacementBytes ([0x41, 0x58, 0x42], False, []))
     = [0x20, 0x58, 0x42] \<and>
   fst (cleanse_index crash_on_X ''tmp'' ''out'' 0 3 0 ([0x41, 0x58, 0x42], False, []))
     = [0x20, 0x58, 0x42] \<and>
   fst (cleanse_pass crash_on_X ''tmp'' ''out'' 0 3 ([0x41, 0x58, 0x42], False, []))
     = [0x20, 0x58, 0x20]"
  by (simp add: cleanse_pass_def cleanse_index_def ReplacementBytes_def crash_on_X_def Let_def upt_rec)

theorem cleanse_keeps_crash_witness:
  "fst (cleanse_try crash_on_X ''tmp'' ''out'' 0 0x41 ReplacementBytes ([0x41, 0x58, 0x42], False, []))
     = [0x20, 0x58, 0x42] \<and>
   fst (cleanse_index crash_on_X ''tmp'' ''out'' 0 3 0 ([0x41, 0x58, 0x42], False, []))
     = [0x20, 0x58, 0x42] \<and>
   fst (cleanse_pass crash_on_X ''tmp'' ''out'' 0 3 ([0x41, 0x58, 0x42], False, []))
     = [0x20, 0x58, 0x20] \<and>
   fst (snd (CleanseCrashInput axb_env crash_on_X [''crash''] (Some ''out''))) = [0x20, 0x58, 0x20] \<and>
   crash_on_X [0x20, 0x58, 0x42] \<noteq> 0 \<and>
   crash_on_X [0x20, 0x58, 0x20] \<noteq> 0 \<and>
   [0x20, 0x58, 0x20] \<noteq> FileToVector axb_env ''crash'' 0"
proof -
  let ?U = "[0x41, 0x58, 0x42] :: Unit"
  have i: "0 < length ?U" by simp
  obtain c1 t1 where
    s1: "cleanse_try crash_on_X ''tmp'' ''out'' 0 (?U ! 0) ReplacementBytes (?U, False, [])
           = ([0x20, 0x58, 0x42], c1, t1)"
    using cleanse_axb_steps
    by (cases "cleanse_try crash_on_X ''tmp'' ''out'' 0 0x41 ReplacementBytes (?U, False, [])") auto
  obtain c2 t2 where
    s2: "cleanse_index crash_on_X ''tmp'' ''out'' 0 3 0 (?U, False, []) = ([0x20, 0x58, 0x42], c2, t2)"
    using cleanse_axb_steps
    by (cases "cleanse_index crash_on_X ''tmp'' ''out'' 0 3 0 (?U, False, [])") auto
  obtain c3 t3 where
    p3: "cleanse_pass crash_on_X ''tmp'' ''out'' 0 3 (?U, False, []) = ([0x20, 0x58, 0x20], c3, t3)"
    using cleanse_axb_steps
    by (cases "cleanse_pass crash_on_X ''tmp'' ''out'' 0 3 (?U, False, [])") auto
  have l3: "length ?U = 3" by simp
  have s3: "cleanse_pass crash_on_X ''tmp'' ''out'' 0 (length ?U) (?U, False, [])
              = ([0x20, 0x58, 0x20], c3, t3)"
    unfolding l3 by (rule p3)
  obtain t4 where
    s4: "CleanseCrashInput axb_env crash_on_X [''crash''] (Some ''out'')
           = (Returned 0, [0x20, 0x58, 0x20], t4)"
    using CleanseCrashInput_axb
    by (cases "CleanseCrashInput axb_env crash_on_X [''crash''] (Some ''out'')") auto
  have ne: "[0x20, 0x58, 0x20] \<noteq> FileToVector axb_env ''crash'' 0"
    by (simp add: axb_env_def)
  note steps = cleanse_keeps_crash [where U = ?U and Idx = 0 and RunCmd = crash_on_X
      and Tmp = "''tmp''" and Outp = "''out''" and Bytes = ReplacementBytes and Changed = False
      and tr = "[]" and NumAttempts = 0 and Sz = 3 and env = axb_env and Inps = "[''crash'']"
      and Artifact = "''out''"]
  note k1 = steps [THEN conjunct1, THEN mp, OF i, THEN mp, OF s1]
  note k2 = steps [THEN conjunct2, THEN conjunct1, THEN mp, OF i, THEN mp, OF s2]
  note k3 = steps [THEN conjunct2, THEN conjunct2, THEN conjunct1, THEN mp, OF s3]
  note k4 = steps [THEN conjunct2, THEN conjunct2, THEN conjunct2, THEN mp, OF s4]
  from k1 k2 k3 k4 ne cleanse_axb_steps CleanseCrashInput_axb
  show ?thesis by simp
qed

subsection \<open>AnalyzeDictionary\<close>

lemma search_le: "search hay needle \<le> length hay"
  by (induction hay) auto

lemma search_found:
  "search hay needle < length hay \<Longrightarrow> take (length needle) (drop (search hay needle) hay) = needle"
  by (induction hay) (auto split: if_splits)

lemma search_sublist: "search hay needle < length hay \<Longrightarrow> sublist needle hay"
proof -
  assume "search hay needle < length hay"
  from search_found [OF this]
  have "hay = take (search hay needle) hay @ needle @ drop (length needle) (drop (search hay needle) hay)"
    by (metis append_take_drop_id)
  then show ?thesis unfolding sublist_def by blast
qed

lemma search_absent: "\<not> sublist needle hay \<Longrightarrow> search hay needle = length hay"
  using search_sublist [of hay needle] search_le [of hay needle] by auto

lemma search_fits:
  assumes "search hay needle < length hay"
  shows "search hay needle + length needle \<le> length hay"
proof -
  from search_found [OF assms]
  have "length needle = length (take (length needle) (drop (search hay needle) hay))" by simp
  with assms show ?thesis by (simp add: min_def split: if_splits)
qed

lemma length_xor_range:
  "EndPos \<le> length Data \<Longrightarrow> StartPos \<le> EndPos \<Longrightarrow> length (xor_range Data StartPos EndPos) = length Data"
  by (simp add: xor_range_def)

lemma mask_occurrences_returns:
  assumes "W \<noteq> []"
  shows "StartPos = length Data \<or> StartPos + length W \<le> length Data \<Longrightarrow>
         \<exists>r. mask_occurrences W Data StartPos = Some r"
proof (induction "length Data - StartPos" arbitrary: Data StartPos rule: less_induct)
  case less
  show ?case
  proof (cases "StartPos = length Data")
    case True
    then show ?thesis by (subst mask_occurrences.simps) simp
  next
    case False
    with less.prems have fits: "StartPos + length W \<le> length Data" by simp
    let ?E = "StartPos + length W"
    let ?D = "xor_range Data StartPos ?E"
    let ?S = "?E + search (drop ?E ?D) W"
    have len: "length ?D = length Data"
      using fits by (simp add: length_xor_range)
    define k where "k = search (drop ?E ?D) W"
    have next_ok: "?E + k = length ?D \<or> ?E + k + length W \<le> length ?D"
    proof (cases "k < length (drop ?E ?D)")
      case True
      then have "k + length W \<le> length (drop ?E ?D)"
        unfolding k_def by (rule search_fits)
      then have "k + length W \<le> length Data - ?E"
        using len by simp
      with len fits show ?thesis by linarith
    next
      case False
      with search_le [of "drop ?E ?D" W] have "k = length (drop ?E ?D)"
        unfolding k_def by simp
      then have "k = length Data - ?E"
        using len by simp
      with len fits show ?thesis by linarith
    qed
    have "length W > 0" using assms by simp
    then have "length ?D - (?E + k) < length Data - StartPos"
      using fits False len by linarith
    from less.hyps [OF this next_ok]
    obtain r where "mask_occurrences W ?D (?E + k) = Some r" by blast
    with False show ?thesis
      unfolding k_def by (subst mask_occurrences.simps) simp
  qed
qed

lemma analyze_entry_returns:
  assumes "Dict ! i \<noteq> []"
  shows "analyze_entry Exec Dict C InitialFeatures i s \<noteq> None"
proof -
  obtain Scores Usages ts where s: "s = (Scores, Usages, ts)" by (rule prod_cases3)
  show ?thesis
  proof (cases "search C (Dict ! i) = length C")
    case True
    with s show ?thesis by (simp add: analyze_entry_def)
  next
    case False
    with search_le [of C "Dict ! i"] have "search C (Dict ! i) < length C" by simp
    from search_fits [OF this]
    have "\<exists>r. mask_occurrences (Dict ! i) C (search C (Dict ! i)) = Some r"
      by (intro mask_occurrences_returns [OF assms]) simp
    then obtain Data where "mask_occurrences (Dict ! i) C (search C (Dict ! i)) = Some Data"
      by blast
    with False s show ?thesis
      by (simp add: analyze_entry_def Let_def split: prod.splits)
  qed
qed

lemma analyze_entries_returns:
  assumes "\<forall>i\<in>set idxs. Dict ! i \<noteq> []"
  shows "analyze_entries Exec Dict C InitialFeatures idxs s \<noteq> None"
  using assms
proof (induction idxs arbitrary: s)
  case Nil
  then show ?case by simp
next
  case (Cons i idxs)
  from Cons.prems have "Dict ! i \<noteq> []" by simp
  from analyze_entry_returns [OF this]
  obtain s1 where "analyze_entry Exec Dict C InitialFeatures i s = Some s1" by blast
  with Cons.IH [OF _, of s1] Cons.prems show ?case by simp
qed

lemma analyze_corpus_returns:
  assumes "\<forall>W\<in>set Dict. W \<noteq> []"
  shows "analyze_corpus Exec Dict Corpus s \<noteq> None"
proof (induction Corpus arbitrary: s)
  case Nil
  then show ?case by simp
next
  case (Cons C Cs)
  obtain Scores Usages ts where s: "s = (Scores, Usages, ts)" by (rule prod_cases3)
  obtain ts1 InitialFeatures where e: "Exec ts C = (ts1, InitialFeatures)"
    by (cases "Exec ts C") auto
  from assms have "\<forall>i\<in>set [0..<length Dict]. Dict ! i \<noteq> []" by simp
  from analyze_entries_returns [OF this]
  obtain s1 where
    "analyze_entries Exec Dict C InitialFeatures [0..<length Dict] (Scores, Usages, ts1) = Some s1"
    by blast
  with s e Cons.IH [of s1] show ?case by simp
qed

text \<open>The unit \<open>i\<close> of the dictionary keeps its score and its count where it does not occur.\<close>

lemma analyze_entry_keeps:
  assumes "analyze_entry Exec Dict C InitialFeatures j (Scores, Usages, ts) = Some (Scores1, Usages1, ts1)"
    and "\<not> sublist (Dict ! i) C"
  shows "Scores1 ! i = Scores ! i \<and> Usages1 ! i = Usages ! i \<and>
         length Scores1 = length Scores \<and> length Usages1 = length Usages"
proof (cases "j = i")
  case True
  with assms(2) have "search C (Dict ! j) = length C" by (simp add: search_absent)
  with assms(1) show ?thesis by (simp add: analyze_entry_def)
next
  case False
  with assms(1) show ?thesis
    by (auto simp: analyze_entry_def Let_def split: if_splits option.splits prod.splits)
qed

lemma analyze_entries_keeps:
  assumes "analyze_entries Exec Dict C InitialFeatures idxs (Scores, Usages, ts) = Some (Scores1, Usages1, ts1)"
    and "\<not> sublist (Dict ! i) C"
  shows "Scores1 ! i = Scores ! i \<and> Usages1 ! i = Usages ! i \<and>
         length Scores1 = length Scores \<and> length Usages1 = length Usages"
  using assms(1)
proof (induction idxs arbitrary: Scores Usages ts)
  case Nil
  then show ?case by simp
next
  case (Cons j idxs)
  from Cons.prems obtain Scores2 Usages2 ts2 where
    e: "analyze_entry Exec Dict C InitialFeatures j (Scores, Usages, ts) = Some (Scores2, Usages2, ts2)"
    and r: "analyze_entries Exec Dict C InitialFeatures idxs (Scores2, Usages2, ts2) = Some (Scores1, Usages1, ts1)"
    by (auto split: option.splits)
  from analyze_entry_keeps [OF e assms(2)] Cons.IH [OF r] show ?case by simp
qed

lemma analyze_corpus_keeps:
  assumes "analyze_corpus Exec Dict Corpus (Scores, Usages, ts) = Some (Scores1, Usages1, ts1)"
    and "\<forall>C\<in>set Corpus. \<not> sublist (Dict ! i) C"
  shows "Scores1 ! i = Scores ! i \<and> Usages1 ! i = Usages ! i \<and>
         length Scores1 = length Scores \<and> length Usages1 = length Usages"
  using assms
proof (induction Corpus arbitrary: Scores Usages ts)
  case Nil
  then show ?case by simp
next
  case (Cons C Cs)
  obtain ts0 InitialFeatures where x: "Exec ts C = (ts0, InitialFeatures)"
    by (cases "Exec ts C") auto
  with Cons.prems(1) obtain Scores2 Usages2 ts2 where
    e: "analyze_entries Exec Dict C InitialFeatures [0..<length Dict] (Scores, Usages, ts0)
          = Some (Scores2, Usages2, ts2)"
    and r: "analyze_corpus Exec Dict Cs (Scores2, Usages2, ts2) = Some (Scores1, Usages1, ts1)"
    by (auto split: option.splits)
  from Cons.prems(2) have here: "\<not> sublist (Dict ! i) C" and rest: "\<forall>C\<in>set Cs. \<not> sublist (Dict ! i) C"
    by simp_all
  from analyze_entries_keeps [OF e here] Cons.IH [OF r rest] show ?case by simp
qed

lemma sublist_concat_map:
  assumes "i < n"
  shows "sublist (f i) (concat (map f [0..<n]))"
proof -
  from assms have "[0..<n] = [0..<i] @ [i..<n]"
    using upt_add_eq_append [of 0 i "n - i"] by simp
  with assms have "[0..<n] = [0..<i] @ i # [Suc i..<n]"
    by (simp add: upt_conv_Cons)
  then have "concat (map f [0..<n]) = concat (map f [0..<i]) @ f i @ concat (map f [Suc i..<n])"
    by simp
  then show ?thesis unfolding sublist_def by blast
qed

text \<open>
  Claim C9. When \<open>AnalyzeDictionary\<close> returns, a dictionary unit that occurs in no unit of
  the corpus has the count 0 and the score 0, and its line, with score 0 and count 0, is
  among the lines printed as useless. The lines printed are those of the units whose score
  is not positive, in the order of the dictionary. \<open>AnalyzeDictionary\<close> does return when no
  unit of the dictionary is empty.
\<close>

theorem AnalyzeDictionary_unused_unit:
  "(AnalyzeDictionary Exec Dict Corpus ts = Some (ret, Scores, Usages, events, ts1) \<longrightarrow>
      events =
        [Printf ''Started dictionary minimization (up to %zu tests)\<newline>''
           [AUInt (unat (word_of_nat (length Dict) * word_of_nat (length Corpus) * (2 :: 64 word)))],
         Printf ''###### Useless dictionary elements. ######\<newline>'' []]
        @ concat (map (\<lambda>j. if 0 < sint (Scores ! j) then []
                             else [Printf [CHR 0x22] [], PrintASCII (Dict ! j) [CHR 0x22],
                                   Printf '' # Score: %d, Used: %d\<newline>''
                                     [AInt (sint (Scores ! j)), AInt (sint (Usages ! j))]])
                    [0..<length Dict])
        @ [Printf ''###### End of useless dictionary elements. ######\<newline>'' []] \<and>
      (i < length Dict \<longrightarrow> (\<forall>C\<in>set Corpus. \<not> sublist (Dict ! i) C) \<longrightarrow>
         Usages ! i = 0 \<and> Scores ! i = 0 \<and>
         sublist [Printf [CHR 0x22] [], PrintASCII (Dict ! i) [CHR 0x22],
                  Printf '' # Score: %d, Used: %d\<newline>'' [AInt 0, AInt 0]] events)) \<and>
   ((\<forall>W\<in>set Dict. W \<noteq> []) \<longrightarrow> AnalyzeDictionary Exec Dict Corpus ts \<noteq> None)"
proof -
  let ?entry = "\<lambda>Scores Usages j. if 0 < sint (Scores ! j) then []
                   else [Printf [CHR 0x22] [], PrintASCII (Dict ! j) [CHR 0x22],
                         Printf '' # Score: %d, Used: %d\<newline>''
                           [AInt (sint (Scores ! j :: cint)), AInt (sint (Usages ! j :: cint))]]"
  have returns: "AnalyzeDictionary Exec Dict Corpus ts \<noteq> None" if "\<forall>W\<in>set Dict. W \<noteq> []"
    using analyze_corpus_returns [OF that, of Exec Corpus]
    by (auto simp: AnalyzeDictionary_def split: option.splits)
  have printed: "events =
        [Printf ''Started dictionary minimization (up to %zu tests)\<newline>''
           [AUInt (unat (word_of_nat (length Dict) * word_of_nat (length Corpus) * (2 :: 64 word)))],
         Printf ''###### Useless dictionary elements. ######\<newline>'' []]
        @ concat (map (?entry Scores Usages) [0..<length Dict])
        @ [Printf ''###### End of useless dictionary elements. ######\<newline>'' []]"
    if "AnalyzeDictionary Exec Dict Corpus ts = Some (ret, Scores, Usages, events, ts1)"
  proof -
    have "print_useless Dict Scores Usages = ?entry Scores Usages"
      by (rule ext) (simp add: print_useless_def)
    with that show ?thesis
      by (auto simp: AnalyzeDictionary_def split: option.splits)
  qed
  have unused: "Usages ! i = 0 \<and> Scores ! i = 0 \<and>
         sublist [Printf [CHR 0x22] [], PrintASCII (Dict ! i) [CHR 0x22],
                  Printf '' # Score: %d, Used: %d\<newline>'' [AInt 0, AInt 0]] events"
    if r: "AnalyzeDictionary Exec Dict Corpus ts = Some (ret, Scores, Usages, events, ts1)"
      and i: "i < length Dict" and absent: "\<forall>C\<in>set Corpus. \<not> sublist (Dict ! i) C"
  proof -
    from r have c: "analyze_corpus Exec Dict Corpus
                      (replicate (length Dict) 0, replicate (length Dict) 0, ts)
                    = Some (Scores, Usages, ts1)"
      by (auto simp: AnalyzeDictionary_def split: option.splits)
    from analyze_corpus_keeps [OF c absent] i
    have z: "Scores ! i = 0" "Usages ! i = 0" by simp_all
    then have "?entry Scores Usages i =
                 [Printf [CHR 0x22] [], PrintASCII (Dict ! i) [CHR 0x22],
                  Printf '' # Score: %d, Used: %d\<newline>'' [AInt 0, AInt 0]]"
      by simp
    with sublist_concat_map [OF i, of "?entry Scores Usages"]
    have "sublist [Printf [CHR 0x22] [], PrintASCII (Dict ! i) [CHR 0x22],
                   Printf '' # Score: %d, Used: %d\<newline>'' [AInt 0, AInt 0]]
            (concat (map (?entry Scores Usages) [0..<length Dict]))"
      by simp
    then obtain ps ss where
      "concat (map (?entry Scores Usages) [0..<length Dict]) =
         ps @ [Printf [CHR 0x22] [], PrintASCII (Dict ! i) [CHR 0x22],
               Printf '' # Score: %d, Used: %d\<newline>'' [AInt 0, AInt 0]] @ ss"
      unfolding sublist_def by blast
    then have "events =
        ([Printf ''Started dictionary minimization (up to %zu tests)\<newline>''
           [AUInt (unat (word_of_nat (length Dict) * word_of_nat (length Corpus) * (2 :: 64 word)))],
          Printf ''###### Useless dictionary elements. ######\<newline>'' []] @ ps)
        @ [Printf [CHR 0x22] [], PrintASCII (Dict ! i) [CHR 0x22],
           Printf '' # Score: %d, Used: %d\<newline>'' [AInt 0, AInt 0]]
        @ (ss @ [Printf ''###### End of useless dictionary elements. ######\<newline>'' []])"
      unfolding printed [OF r] by simp
    then have "sublist [Printf [CHR 0x22] [], PrintASCII (Dict ! i) [CHR 0x22],
                   Printf '' # Score: %d, Used: %d\<newline>'' [AInt 0, AInt 0]] events"
      unfolding sublist_def by blast
    with z show ?thesis by simp
  qed
  from returns printed unused show ?thesis by blast
qed

lemma AnalyzeDictionary_example:
  "AnalyzeDictionary byte_features [[1, 2], [7], [3, 4]] [[1, 2, 3, 1, 2], [5, 3, 4]] 0 =
     Some (Returned 0, [2, 0, 2], [1, 0, 1],
       [Printf ''Started dictionary minimization (up to %zu tests)\<newline>'' [AUInt 12],
        Printf ''###### Useless dictionary elements. ######\<newline>'' [],
        Printf [CHR 0x22] [], PrintASCII [7] [CHR 0x22],
        Printf '' # Score: %d, Used: %d\<newline>'' [AInt 0, AInt 0],
        Printf ''###### End of useless dictionary elements. ######\<newline>'' []],
       4)"
  by code_simp

theorem AnalyzeDictionary_unused_unit_witness:
  "AnalyzeDictionary byte_features [[1, 2], [7], [3, 4]] [[1, 2, 3, 1, 2], [5, 3, 4]] 0 \<noteq> None \<and>
   [2, 0, 2 :: cint] ! 1 = 0 \<and> [1, 0, 1 :: cint] ! 1 = 0 \<and>
   sublist [Printf [CHR 0x22] [], PrintASCII [7] [CHR 0x22],
            Printf '' # Score: %d, Used: %d\<newline>'' [AInt 0, AInt 0]]
     [Printf ''Started dictionary minimization (up to %zu tests)\<newline>'' [AUInt 12],
      Printf ''###### Useless dictionary elements. ######\<newline>'' [],
      Printf [CHR 0x22] [], PrintASCII [7] [CHR 0x22],
      Printf '' # Score: %d, Used: %d\<newline>'' [AInt 0, AInt 0],
      Printf ''###### End of useless dictionary elements. ######\<newline>'' []]"
proof -
  let ?Dict = "[[1, 2], [7], [3, 4]] :: Unit list"
  let ?Corpus = "[[1, 2, 3, 1, 2], [5, 3, 4]] :: Unit list"
  have nonempty: "\<forall>W\<in>set ?Dict. W \<noteq> []" by simp
  have i: "(1 :: nat) < length ?Dict" by simp
  have absent: "\<forall>C\<in>set ?Corpus. \<not> sublist (?Dict ! 1) C"
    by (auto dest: set_mono_sublist)
  note th = AnalyzeDictionary_unused_unit [where Exec = byte_features and Dict = ?Dict
      and Corpus = ?Corpus and ts = 0 and i = 1]
  from th [THEN conjunct2, THEN mp, OF nonempty]
    th [THEN conjunct1, THEN mp, OF AnalyzeDictionary_example, THEN conjunct2, THEN mp, OF i,
        THEN mp, OF absent]
  show ?thesis by simp
qed

subsection \<open>ParseFlags\<close>

lemma init_defaults_other:
  "n \<notin> Name ` set table \<Longrightarrow>
   NumFlag (init_defaults table F) n = NumFlag F n \<and>
   StrFlagV (init_defaults table F) n = StrFlagV F n"
  by (induction table arbitrary: F) (auto split: FlagKind.splits)

lemma init_defaults_row:
  assumes "distinct (map Name table)" and "D \<in> set table"
  shows "(Kind D = IntFlag \<or> Kind D = UIntFlag \<longrightarrow>
            NumFlag (init_defaults table F) (Name D) = Default D) \<and>
         (Kind D = StrFlag \<longrightarrow> StrFlagV (init_defaults table F) (Name D) = None)"
  using assms
proof (induction table arbitrary: F)
  case Nil
  then show ?case by simp
next
  case (Cons R table)
  show ?case
  proof (cases "D = R")
    case True
    with Cons.prems have "Name D \<notin> Name ` set table" by auto
    from init_defaults_other [OF this] True show ?thesis
      by (auto split: FlagKind.splits)
  next
    case False
    with Cons.prems have "D \<in> set table" "distinct (map Name table)" by auto
    from Cons.IH [OF this(2,1)] show ?thesis by simp
  qed
qed

text \<open>What one token does to the field of the name \<open>n\<close>, all rows of that name being of the
  kind \<open>k\<close>.\<close>

lemma ParseOneFlag_rows_field:
  assumes "ParseOneFlag_rows stoul Param rows st = Some st1"
    and "\<forall>R\<in>set rows. Name R = n \<longrightarrow> Kind R = k"
  shows "(NumFlag (Flags st1) n = NumFlag (Flags st) n \<or>
            token_num stoul k Param n (NumFlag (Flags st1) n)) \<and>
         (StrFlagV (Flags st1) n = StrFlagV (Flags st) n \<or>
            token_str k Param n (StrFlagV (Flags st1) n))"
  using assms
proof (induction rows)
  case Nil
  then show ?case by (auto simp: print_def)
next
  case (Cons R rows)
  show ?case
  proof (cases "FlagValue Param (Name R)")
    case None
    with Cons show ?thesis by simp
  next
    case (Some Str)
    show ?thesis
    proof (cases "Name R = n")
      case True
      with Cons.prems(2) have k: "Kind R = k" by simp
      from Cons.prems(1) Some True k show ?thesis
        by (cases k)
          (auto simp: token_num_def token_str_def print_def set_num_def set_str_def Let_def
             split: option.splits if_splits)
    next
      case False
      with Cons.prems(1) Some show ?thesis
        by (cases "Kind R")
          (auto simp: print_def set_num_def set_str_def Let_def split: option.splits if_splits)
    qed
  qed
qed

lemma ParseOneFlag_field:
  assumes "ParseOneFlag stoul table Param st = Some (b, st1)"
    and "\<forall>R\<in>set table. Name R = n \<longrightarrow> Kind R = k"
  shows "(NumFlag (Flags st1) n = NumFlag (Flags st) n \<or>
            token_num stoul k Param n (NumFlag (Flags st1) n)) \<and>
         (StrFlagV (Flags st1) n = StrFlagV (Flags st) n \<or>
            token_str k Param n (StrFlagV (Flags st1) n))"
proof (cases "c_at Param 0 \<noteq> CHR ''-'' \<or> c_at Param 1 = CHR ''-''")
  case True
  with assms(1) show ?thesis
    by (auto simp: ParseOneFlag_def print_def Let_def split: if_splits)
next
  case False
  with assms(1) have "ParseOneFlag_rows stoul Param table st = Some st1"
    by (auto simp: ParseOneFlag_def)
  from ParseOneFlag_rows_field [OF this assms(2)] show ?thesis .
qed

lemma ParseFlags_args_field:
  assumes "ParseFlags_args stoul table args st = Some st1"
    and "\<forall>R\<in>set table. Name R = n \<longrightarrow> Kind R = k"
  shows "(NumFlag (Flags st1) n = NumFlag (Flags st) n \<or>
            (\<exists>A\<in>set args. token_num stoul k A n (NumFlag (Flags st1) n))) \<and>
         (StrFlagV (Flags st1) n = StrFlagV (Flags st) n \<or>
            (\<exists>A\<in>set args. token_str k A n (StrFlagV (Flags st1) n)))"
  using assms(1)
proof (induction args arbitrary: st)
  case Nil
  then show ?case by simp
next
  case (Cons A args)
  from Cons.prems obtain b st2 where one: "ParseOneFlag stoul table A st = Some (b, st2)"
    by (auto split: option.splits)
  note here = ParseOneFlag_field [OF one assms(2)]
  show ?case
  proof (cases "b \<and> NumFlag (Flags st2) ''ignore_remaining_args'' \<noteq> 0")
    case True
    with Cons.prems one have "st1 = st2" by auto
    with here show ?thesis by auto
  next
    case False
    with Cons.prems one obtain st3 where
      rest: "ParseFlags_args stoul table args st3 = Some st1" and same: "Flags st3 = Flags st2"
      by (cases b) (auto split: if_splits)
    from Cons.IH [OF rest] same here show ?thesis by auto
  qed
qed

lemma no_token_num:
  assumes "\<forall>A\<in>set args. \<forall>v. A \<noteq> CHR ''-'' # n @ CHR ''='' # v"
  shows "\<not> (\<exists>A\<in>set args. token_num stoul k A n x)"
proof
  assume "\<exists>A\<in>set args. token_num stoul k A n x"
  then obtain A v where "A \<in> set args" and "FlagValue A n = Some v"
    by (auto simp: token_num_def split: option.splits)
  with assms show False by (simp add: FlagValue_iff)
qed

text \<open>
  Claim C1, as the code has it. After \<open>ParseFlags\<close> returns, the field of every row \<open>D\<close> of
  the table (a table whose names are distinct) holds its initial value or a value parsed
  from a token \<open>-name=<v>\<close> of \<open>Args[1..]\<close>. The initial value is the declared default (null for
  a string flag), except that with \<open>LLVMFuzzerCustomMutator\<close> present it is 0 for
  \<open>len_control\<close>. In particular an int flag with no token \<open>-name=<v>\<close> among the arguments
  holds its default, and \<open>len_control\<close> holds 0 when the custom mutator is present.
\<close>

theorem ParseFlags_fields:
  assumes names: "distinct (map Name table)" and row: "D \<in> set table"
    and ret: "ParseFlags stoul table Args EF st = Some st1"
  shows "(Kind D = IntFlag \<or> Kind D = UIntFlag \<longrightarrow>
            NumFlag (Flags st1) (Name D) =
              (if LLVMFuzzerCustomMutator EF \<noteq> None \<and> Name D = ''len_control'' then 0 else Default D) \<or>
            parsed_num stoul (drop 1 Args) D (NumFlag (Flags st1) (Name D))) \<and>
         (Kind D = StrFlag \<longrightarrow>
            StrFlagV (Flags st1) (Name D) = None \<or>
            parsed_str (drop 1 Args) D (StrFlagV (Flags st1) (Name D))) \<and>
         (Kind D = IntFlag \<longrightarrow>
            (\<forall>A\<in>set (drop 1 Args). \<forall>v. A \<noteq> CHR ''-'' # Name D @ CHR ''='' # v) \<longrightarrow>
            NumFlag (Flags st1) (Name D) =
              (if LLVMFuzzerCustomMutator EF \<noteq> None \<and> Name D = ''len_control'' then 0 else Default D))"
proof -
  let ?n = "Name D"
  let ?F0 = "init_defaults table (Flags st)"
  let ?st1 = "st\<lparr>Flags := ?F0\<rparr>"
  let ?st2 = "case LLVMFuzzerCustomMutator EF of
                None \<Rightarrow> ?st1
              | Some p \<Rightarrow>
                  print (set_num ?st1 ''len_control'' 0)
                    (Printf ''INFO: found LLVMFuzzerCustomMutator (%p). Disabling -len_control by default.\<newline>''
                       [APtr p])"
  let ?st3 = "?st2\<lparr>Inputs := []\<rparr>"
  let ?init = "if LLVMFuzzerCustomMutator EF \<noteq> None \<and> ?n = ''len_control'' then 0 else Default D"
  from names row have kinds: "\<forall>R\<in>set table. Name R = ?n \<longrightarrow> Kind R = Kind D"
    by (auto simp: distinct_map dest: inj_onD)
  from ret have args: "ParseFlags_args stoul table (drop 1 Args) ?st3 = Some st1"
    by (simp add: ParseFlags_def Let_def)
  note defaults = init_defaults_row [OF names row, of "Flags st"]
  have num0: "NumFlag (Flags ?st3) ?n = ?init" if "Kind D = IntFlag \<or> Kind D = UIntFlag"
    using defaults that by (auto simp: print_def set_num_def split: option.splits)
  have str0: "StrFlagV (Flags ?st3) ?n = None" if "Kind D = StrFlag"
    using defaults that by (auto simp: print_def set_num_def split: option.splits)
  note loop = ParseFlags_args_field [OF args kinds]
  have a: "NumFlag (Flags st1) ?n = ?init \<or> parsed_num stoul (drop 1 Args) D (NumFlag (Flags st1) ?n)"
    if "Kind D = IntFlag \<or> Kind D = UIntFlag"
    using loop num0 [OF that] by (auto simp: parsed_num_def list_ex_iff)
  have b: "StrFlagV (Flags st1) ?n = None \<or> parsed_str (drop 1 Args) D (StrFlagV (Flags st1) ?n)"
    if "Kind D = StrFlag"
    using loop str0 [OF that] by (auto simp: parsed_str_def list_ex_iff)
  have c: "NumFlag (Flags st1) ?n = ?init"
    if "Kind D = IntFlag" and "\<forall>A\<in>set (drop 1 Args). \<forall>v. A \<noteq> CHR ''-'' # ?n @ CHR ''='' # v"
    using loop num0 no_token_num [OF that(2), of stoul "Kind D" "NumFlag (Flags st1) ?n"] that(1)
    by auto
  from a b c show ?thesis by blast
qed

lemma ParseFlags_example:
  "ParseFlags no_stoul small_table [''fuzz'', ''-dict=words'', ''corpus''] with_custom_mutator
     initial_state =
   Some \<lparr>Flags = \<lparr>NumFlag = (\<lambda>_. 0)(''verbosity'' := 1, ''len_control'' := 0, ''seed'' := 0),
                   StrFlagV = (\<lambda>_. None)(''dict'' := Some ''words'')\<rparr>,
         Inputs = [''corpus''], PrintedWarning = False,
         Out = [Printf ''INFO: found LLVMFuzzerCustomMutator (%p). Disabling -len_control by default.\<newline>''
                  [APtr 4096]]\<rparr>"
  by (simp add: ParseFlags_def small_table_def with_custom_mutator_def initial_state_def
      ParseOneFlag_def FlagValue_def c_at_def print_def set_num_def set_str_def verbosity_def
      Let_def fun_upd_twist)

theorem ParseFlags_fields_witness:
  "NumFlag (Flags (the (ParseFlags no_stoul small_table [''fuzz'', ''-dict=words'', ''corpus'']
      with_custom_mutator initial_state))) ''verbosity'' = 1 \<and>
   NumFlag (Flags (the (ParseFlags no_stoul small_table [''fuzz'', ''-dict=words'', ''corpus'']
      with_custom_mutator initial_state))) ''len_control'' = 0 \<and>
   parsed_str [''-dict=words'', ''corpus'']
     \<lparr>Name = ''dict'', Description = ''Use the dictionary file.'', Default = 0, Kind = StrFlag\<rparr>
     (Some ''words'')"
proof -
  let ?V = "\<lparr>Name = ''verbosity'', Description = ''Verbosity level.'', Default = 1, Kind = IntFlag\<rparr>"
  let ?L = "\<lparr>Name = ''len_control'', Description = ''Try generating small inputs first.'',
             Default = 100, Kind = IntFlag\<rparr>"
  let ?D = "\<lparr>Name = ''dict'', Description = ''Use the dictionary file.'', Default = 0, Kind = StrFlag\<rparr>"
  let ?Args = "[''fuzz'', ''-dict=words'', ''corpus'']"
  have names: "distinct (map Name small_table)" by (simp add: small_table_def)
  have v: "?V \<in> set small_table" and l: "?L \<in> set small_table" and d: "?D \<in> set small_table"
    by (simp_all add: small_table_def)
  have cm: "LLVMFuzzerCustomMutator with_custom_mutator \<noteq> None"
    by (simp add: with_custom_mutator_def)
  have nov: "\<forall>A\<in>set (drop 1 ?Args). \<forall>v. A \<noteq> CHR ''-'' # Name ?V @ CHR ''='' # v" by simp
  have nol: "\<forall>A\<in>set (drop 1 ?Args). \<forall>v. A \<noteq> CHR ''-'' # Name ?L @ CHR ''='' # v" by simp
  have ki: "Kind ?V = IntFlag" "Kind ?L = IntFlag" and ks: "Kind ?D = StrFlag" by simp_all
  from ParseFlags_fields [OF names v ParseFlags_example, THEN conjunct2, THEN conjunct2, THEN mp,
      OF ki(1), THEN mp, OF nov]
    ParseFlags_fields [OF names l ParseFlags_example, THEN conjunct2, THEN conjunct2, THEN mp,
      OF ki(2), THEN mp, OF nol]
    ParseFlags_fields [OF names d ParseFlags_example, THEN conjunct2, THEN conjunct1, THEN mp,
      OF ks]
    cm
  show ?thesis by (simp add: ParseFlags_example)
qed

text \<open>
  The claim as stated fails for the int flag \<open>len_control\<close>, declared with the default 100:
  with the custom mutator present and no flag among the arguments it holds 0.
\<close>

theorem ParseFlags_len_control_counterexample:
  "ParseFlags no_stoul small_table [''fuzz''] with_custom_mutator initial_state \<noteq> None \<and>
   NumFlag (Flags (the (ParseFlags no_stoul small_table [''fuzz''] with_custom_mutator
      initial_state))) ''len_control'' = 0 \<and>
   Name (small_table ! 1) = ''len_control'' \<and> Kind (small_table ! 1) = IntFlag \<and>
   Default (small_table ! 1) = 100"
  by (simp add: ParseFlags_def small_table_def with_custom_mutator_def initial_state_def
      print_def set_num_def Let_def)

subsection \<open>WorkerThread\<close>

lemma count_list_update_other:
  "i < length xs \<Longrightarrow> xs ! i \<noteq> a \<Longrightarrow> y \<noteq> a \<Longrightarrow> count_list (xs[i := y]) a = count_list xs a"
  by (induction xs arbitrary: i) (auto split: nat.splits)

lemma count_list_update_new:
  "i < length xs \<Longrightarrow> xs ! i \<noteq> a \<Longrightarrow> count_list (xs[i := a]) a = Suc (count_list xs a)"
  by (induction xs arbitrary: i) (auto split: nat.splits)

lemma count_list_less:
  "i < length xs \<Longrightarrow> xs ! i \<noteq> a \<Longrightarrow> count_list xs a < length xs"
proof (induction xs arbitrary: i)
  case Nil
  then show ?case by simp
next
  case (Cons x xs)
  have "count_list xs a \<le> length xs" by (rule count_le_length)
  with Cons show ?case by (cases i) auto
qed

lemma count_list_all:
  "list_all (\<lambda>w. w = a) xs \<Longrightarrow> count_list xs a = length xs"
  by (induction xs) auto

lemma WorkerThread_step_inv:
  assumes bound: "W + unat NumJobs \<le> 2 ^ 32" and inv: "pool_inv W NumJobs p"
  shows "pool_inv W NumJobs (WorkerThread_step JobExit NumJobs i p)"
proof (cases "length (Workers p) \<le> i")
  case True
  with inv show ?thesis by (simp add: WorkerThread_step_def)
next
  case False
  then have i: "i < length (Workers p)" by simp
  let ?k = "length (Jobs p)"
  let ?d = "finished_count p"
  from inv have len: "length (Workers p) = W"
    and ids: "job_ids p = map word_of_nat [0..<?k]"
    and k: "?k \<le> unat NumJobs"
    and ctr: "Counter p = word_of_nat (?k + ?d)"
    and fin: "0 < ?d \<longrightarrow> ?k = unat NumJobs"
    by (simp_all add: pool_inv_def)
  show ?thesis
  proof (cases "Workers p ! i")
    case Fetching
    then have nf: "Workers p ! i \<noteq> Finished" by simp
    from count_list_less [OF i nf] len have d: "?d < W" by (simp add: finished_count_def)
    with k bound have small: "?k + ?d < 2 ^ 32" by simp
    then have un: "unat (Counter p) = ?k + ?d"
      by (simp del: of_nat_add add: ctr unat_of_nat)
    show ?thesis
    proof (cases "NumJobs \<le> Counter p")
      case True
      then have "unat NumJobs \<le> ?k + ?d" by (simp add: word_le_nat_alt un)
      with k fin have all: "?k = unat NumJobs" by (cases "?d = 0") auto
      have d1: "count_list ((Workers p)[i := Finished]) Finished = Suc ?d"
        using count_list_update_new [OF i nf] by (simp add: finished_count_def)
      from True Fetching i len ids all ctr d1 show ?thesis
        by (simp add: WorkerThread_step_def pool_inv_def Let_def finished_count_def job_ids_def)
    next
      case False
      then have lt: "?k + ?d < unat NumJobs" by (simp add: word_le_nat_alt un)
      with fin have d0: "?d = 0" by (cases "?d = 0") auto
      have d1: "count_list ((Workers p)[i := Running (Counter p)]) Finished = ?d"
        using count_list_update_other [OF i nf, of "Running (Counter p)"]
        by (simp add: finished_count_def)
      from False Fetching i len ids ctr d0 d1 lt show ?thesis
        by (simp add: WorkerThread_step_def pool_inv_def Let_def finished_count_def job_ids_def)
    qed
  next
    case (Running C)
    then have nf: "Workers p ! i \<noteq> Finished" by simp
    have "count_list ((Workers p)[i := Reporting C (JobExit C)]) Finished = ?d"
      using count_list_update_other [OF i nf, of "Reporting C (JobExit C)"]
      by (simp add: finished_count_def)
    with Running i inv show ?thesis
      by (simp add: WorkerThread_step_def pool_inv_def Let_def finished_count_def job_ids_def)
  next
    case (Reporting C ExitCode)
    then have nf: "Workers p ! i \<noteq> Finished" by simp
    have "count_list ((Workers p)[i := Fetching]) Finished = ?d"
      using count_list_update_other [OF i nf, of Fetching]
      by (simp add: finished_count_def)
    with Reporting i inv show ?thesis
      by (simp add: WorkerThread_step_def pool_inv_def Let_def finished_count_def job_ids_def)
  next
    case Finished
    with i inv show ?thesis by (simp add: WorkerThread_step_def)
  qed
qed

lemma fold_WorkerThread_step_inv:
  assumes "W + unat NumJobs \<le> 2 ^ 32" and "pool_inv W NumJobs p"
  shows "pool_inv W NumJobs (fold (WorkerThread_step JobExit NumJobs) schedule p)"
  using assms(2)
proof (induction schedule arbitrary: p)
  case Nil
  then show ?case by simp
next
  case (Cons i schedule)
  from WorkerThread_step_inv [OF assms(1) Cons.prems]
  have "pool_inv W NumJobs (WorkerThread_step JobExit NumJobs i p)" .
  from Cons.IH [OF this] show ?case by simp
qed

lemma init_pool_inv: "pool_inv (unat NumWorkers) NumJobs (init_pool NumWorkers)"
  by (simp add: pool_inv_def init_pool_def job_ids_def finished_count_def)

lemma distinct_word_of_nat_upt:
  assumes "k \<le> 2 ^ 32"
  shows "distinct (map (word_of_nat :: nat \<Rightarrow> unsigned) [0..<k])"
proof -
  have "inj_on (word_of_nat :: nat \<Rightarrow> unsigned) {0..<k}"
  proof (rule inj_onI)
    fix x y assume x: "x \<in> {0..<k}" and y: "y \<in> {0..<k}"
      and e: "(word_of_nat x :: unsigned) = word_of_nat y"
    from e have "unat (word_of_nat x :: unsigned) = unat (word_of_nat y :: unsigned)" by simp
    with x y assms show "x = y" by (simp add: unat_of_nat)
  qed
  then show ?thesis by (simp add: distinct_map)
qed

lemma set_word_of_nat_upt:
  assumes "k \<le> unat (J :: unsigned)"
  shows "set (map (word_of_nat :: nat \<Rightarrow> unsigned) [0..<k]) \<subseteq> {C. C < J}"
proof
  fix C assume "C \<in> set (map (word_of_nat :: nat \<Rightarrow> unsigned) [0..<k])"
  then obtain j where j: "j < k" and C: "C = word_of_nat j" by auto
  have "unat J < 2 ^ 32" using unsigned_less [of J] by simp
  with j assms have "unat (word_of_nat j :: unsigned) = j" by (simp add: unat_of_nat)
  with j assms C show "C \<in> {C. C < J}" by (simp add: word_less_nat_alt)
qed

lemma set_word_of_nat_upt_all:
  "set (map (word_of_nat :: nat \<Rightarrow> unsigned) [0..<unat J]) = {C. C < J}"
proof
  show "set (map (word_of_nat :: nat \<Rightarrow> unsigned) [0..<unat J]) \<subseteq> {C. C < J}"
    by (rule set_word_of_nat_upt) simp
next
  show "{C. C < J} \<subseteq> set (map (word_of_nat :: nat \<Rightarrow> unsigned) [0..<unat J])"
  proof
    fix C assume "C \<in> {C. C < J}"
    then have "unat C < unat J" by (simp add: word_less_nat_alt)
    moreover have "C = word_of_nat (unat C)" by simp
    ultimately show "C \<in> set (map (word_of_nat :: nat \<Rightarrow> unsigned) [0..<unat J])"
      by (metis (no_types, lifting) atLeastLessThan_iff imageI list.set_map set_upt zero_le)
  qed
qed

text \<open>
  Claim C5, as the code has it. Let the number of workers plus the number of jobs be at
  most \<open>2^32\<close>, so that the 32-bit counter, which every worker increments once more when it
  leaves its loop, does not wrap. Then in every interleaving, and at every moment of it, the
  job IDs fetched so far are 0, 1, 2, ... in this order: no ID is fetched twice, each is below
  \<open>NumJobs\<close>, and once every worker has finished (there being at least one worker) the IDs
  fetched are exactly the IDs below \<open>NumJobs\<close>.
\<close>

theorem workers_claim_each_job_once:
  assumes bound: "unat NumWorkers + unat NumJobs \<le> 2 ^ 32"
    and run: "p = run_workers JobExit NumWorkers NumJobs schedule"
  shows "job_ids p = map word_of_nat [0..<length (Jobs p)] \<and>
         distinct (job_ids p) \<and>
         set (job_ids p) \<subseteq> {C. C < NumJobs} \<and>
         (0 < unat NumWorkers \<longrightarrow> all_finished p \<longrightarrow> set (job_ids p) = {C. C < NumJobs})"
proof -
  have inv: "pool_inv (unat NumWorkers) NumJobs p"
    unfolding run run_workers_def
    by (rule fold_WorkerThread_step_inv [OF bound init_pool_inv])
  then have len: "length (Workers p) = unat NumWorkers"
    and ids: "job_ids p = map word_of_nat [0..<length (Jobs p)]"
    and k: "length (Jobs p) \<le> unat NumJobs"
    and fin: "0 < finished_count p \<longrightarrow> length (Jobs p) = unat NumJobs"
    by (simp_all add: pool_inv_def)
  have "unat NumJobs < 2 ^ 32" using unsigned_less [of NumJobs] by simp
  with k have "length (Jobs p) \<le> 2 ^ 32" by simp
  from distinct_word_of_nat_upt [OF this] ids have d: "distinct (job_ids p)" by simp
  from set_word_of_nat_upt [OF k] ids have s: "set (job_ids p) \<subseteq> {C. C < NumJobs}" by simp
  have a: "set (job_ids p) = {C. C < NumJobs}" if "0 < unat NumWorkers" and "all_finished p"
  proof -
    from that(2) have "finished_count p = length (Workers p)"
      by (simp add: all_finished_def finished_count_def count_list_all)
    with that(1) len fin have "length (Jobs p) = unat NumJobs" by simp
    with ids show ?thesis by (simp add: set_word_of_nat_upt_all del: set_map)
  qed
  from ids d s a show ?thesis by blast
qed

lemma run_workers_example:
  "Jobs (run_workers jobs_succeed 2 3 [0, 1, 0, 1, 0, 1, 0, 0, 0, 0, 1]) = [(0, 0), (1, 1), (0, 2)] \<and>
   all_finished (run_workers jobs_succeed 2 3 [0, 1, 0, 1, 0, 1, 0, 0, 0, 0, 1]) \<and>
   RunInMultipleProcesses jobs_succeed 2 3 [0, 1, 0, 1, 0, 1, 0, 0, 0, 0, 1] = Some 0"
  by code_simp

theorem workers_claim_each_job_once_witness:
  "set (job_ids (run_workers jobs_succeed 2 3 [0, 1, 0, 1, 0, 1, 0, 0, 0, 0, 1])) = {C. C < 3} \<and>
   distinct (job_ids (run_workers jobs_succeed 2 3 [0, 1, 0, 1, 0, 1, 0, 0, 0, 0, 1])) \<and>
   job_ids (run_workers jobs_succeed 2 3 [0, 1, 0, 1, 0, 1, 0, 0, 0, 0, 1]) = [0, 1, 2]"
proof -
  have bound: "unat (2 :: unsigned) + unat (3 :: unsigned) \<le> 2 ^ 32" by simp
  have w: "0 < unat (2 :: unsigned)" by simp
  from workers_claim_each_job_once [OF bound refl, of jobs_succeed "[0, 1, 0, 1, 0, 1, 0, 0, 0, 0, 1]"]
    run_workers_example w
  show ?thesis by (simp add: job_ids_def)
qed

text \<open>One worker alone: the three steps of one job, and \<open>m\<close> jobs in a row.\<close>

lemma one_job:
  assumes i: "i < length (Workers p)" and f: "Workers p ! i = Fetching" and c: "Counter p < NumJobs"
  shows "Counter ((WorkerThread_step JobExit NumJobs i ^^ 3) p) = Counter p + 1 \<and>
         Workers ((WorkerThread_step JobExit NumJobs i ^^ 3) p) = Workers p \<and>
         Jobs ((WorkerThread_step JobExit NumJobs i ^^ 3) p) = Jobs p @ [(i, Counter p)]"
proof -
  have same: "(Workers p)[i := Fetching] = Workers p"
    using f by (metis list_update_id)
  from c have nle: "\<not> NumJobs \<le> Counter p" by simp
  show ?thesis
    using i f nle same
    by (simp add: numeral_3_eq_3 WorkerThread_step_def Let_def)
qed

lemma jobs_in_a_row:
  assumes "i < length (Workers p)" and "Workers p ! i = Fetching"
    and "unat (Counter p) + m \<le> unat NumJobs"
  shows "Counter ((WorkerThread_step JobExit NumJobs i ^^ (3 * m)) p) = Counter p + word_of_nat m \<and>
         Workers ((WorkerThread_step JobExit NumJobs i ^^ (3 * m)) p) = Workers p \<and>
         Jobs ((WorkerThread_step JobExit NumJobs i ^^ (3 * m)) p) =
           Jobs p @ map (\<lambda>j. (i, Counter p + word_of_nat j)) [0..<m]"
  using assms
proof (induction m arbitrary: p)
  case 0
  then show ?case by simp
next
  case (Suc m)
  let ?f = "WorkerThread_step JobExit NumJobs i"
  let ?p3 = "(?f ^^ 3) p"
  from Suc.prems(3) have lt: "Counter p < NumJobs"
    by (simp add: word_less_nat_alt)
  note first = one_job [OF Suc.prems(1,2) lt, of JobExit]
  have "unat NumJobs < 2 ^ 32" using unsigned_less [of NumJobs] by simp
  with Suc.prems(3) have "unat (Counter p) + 1 < 2 ^ 32" by simp
  then have "unat (Counter p + 1) = unat (Counter p) + 1"
    by (simp add: unat_word_ariths)
  with Suc.prems(3) first have c3: "unat (Counter ?p3) + m \<le> unat NumJobs" by simp
  from first Suc.prems(1,2) have i3: "i < length (Workers ?p3)" and f3: "Workers ?p3 ! i = Fetching"
    by simp_all
  note rest = Suc.IH [OF i3 f3 c3]
  have "3 * Suc m = 3 * m + 3" by simp
  then have split: "(?f ^^ (3 * Suc m)) p = (?f ^^ (3 * m)) ?p3"
    by (simp only: funpow_add o_apply)
  have shift: "map (\<lambda>j. (i, Counter p + word_of_nat j)) [0..<Suc m] =
               (i, Counter p) # map (\<lambda>j. (i, Counter p + 1 + word_of_nat j)) [0..<m]"
    by (simp add: upt_conv_Cons map_Suc_upt [symmetric] add.assoc del: upt_Suc)
  from rest first show ?case
    unfolding split shift by (simp add: add.assoc)
qed

text \<open>
  The claim as stated fails for two workers and \<open>2^32 - 1\<close> jobs. The first worker runs all
  the jobs and then fetches \<open>2^32 - 1\<close>, which ends its loop and wraps the counter to 0; the
  second worker then fetches 0: the job 0 is run a second time.
\<close>

theorem workers_wrap_counterexample:
  "\<not> distinct (job_ids (run_workers jobs_succeed 2 0xFFFFFFFF (replicate 12884901885 0 @ [0, 1])))"
proof -
  let ?J = "0xFFFFFFFF :: unsigned"
  let ?f = "WorkerThread_step jobs_succeed ?J"
  let ?p0 = "init_pool 2"
  let ?p1 = "(?f 0 ^^ 12884901885) ?p0"
  have i: "0 < length (Workers ?p0)" and f: "Workers ?p0 ! 0 = Fetching"
    and c: "unat (Counter ?p0) + 4294967295 \<le> unat ?J"
    by (simp_all add: init_pool_def)
  have "replicate 2 Fetching = [Fetching, Fetching]"
    by (simp add: numeral_2_eq_2)
  then have ws: "Workers ?p0 = [Fetching, Fetching]"
    by (simp add: init_pool_def)
  from jobs_in_a_row [OF i f c, of jobs_succeed] ws
  have c1: "Counter ?p1 = ?J" and w1: "Workers ?p1 = [Fetching, Fetching]"
    and j1: "Jobs ?p1 = map (\<lambda>j. (0, word_of_nat j)) [0..<4294967295]"
    by (simp_all add: init_pool_def)
  let ?p2 = "?f 0 ?p1"
  from c1 w1 j1 have c2: "Counter ?p2 = 0" and w2: "Workers ?p2 = [Finished, Fetching]"
    and j2: "Jobs ?p2 = map (\<lambda>j. (0, word_of_nat j)) [0..<4294967295]"
    by (simp_all add: WorkerThread_step_def Let_def)
  let ?p3 = "?f 1 ?p2"
  from c2 w2 j2 have j3: "Jobs ?p3 = map (\<lambda>j. (0, word_of_nat j)) [0..<4294967295] @ [(1, 0)]"
    by (simp add: WorkerThread_step_def Let_def)
  have run: "run_workers jobs_succeed 2 ?J (replicate 12884901885 0 @ [0, 1]) = ?p3"
    by (simp only: run_workers_def fold_append fold_replicate o_apply fold_simps)
  have "(0 :: unsigned) \<in> word_of_nat ` {0..<4294967295}"
    by (rule image_eqI [where x = 0]) simp_all
  then have "(0 :: unsigned) \<in> set (map word_of_nat [0..<4294967295])"
    by (simp del: upt_Suc)
  then have "\<not> distinct (map word_of_nat [0..<4294967295] @ [0 :: unsigned])"
    by (simp del: set_map)
  with j3 run show ?thesis
    by (simp add: job_ids_def o_def del: distinct_append set_map)
qed

end
